theory Spec2Isabelle
  imports Main
begin

section \<open>JavaScript values of a request body\<close>

text \<open>
  A key of \<open>request.values\<close> is absent (\<open>undefined\<close>), explicitly \<open>null\<close>, or a row id.
  The hooks distinguish the loose test \<open>!= null\<close> (only \<open>Val\<close> passes) from the strict
  test \<open>!== undefined\<close> (\<open>Null\<close> and \<open>Val\<close> pass).
\<close>

datatype 'a js = Undefined | Null | Val 'a

section \<open>Data model\<close>

text \<open>
  Modelled from the spec: the row types of \<open>balena-model\<close> (Device, Application, Release,
  Image, Service, ServiceInstall) are imported by \<open>service-installs.ts\<close> but declared
  elsewhere. The records keep the columns the hooks' filters navigate; a nullable
  foreign key is an \<open>option\<close>. A table is the list of its rows in storage order.
\<close>

record Application =
  application_id :: nat
  application_should_be_running__release :: "nat option"

record Device =
  device_id :: nat
  device_belongs_to__application :: nat
  device_should_be_running__release :: "nat option"
  device_is_running__release :: "nat option"
  device_should_be_managed_by__release :: "nat option"

record Release =
  release_id :: nat

record Image =
  image_id :: nat
  image_is_a_build_of__service :: nat

record ImageIsPartOfRelease =
  ipr_image :: nat
  ipr_is_part_of__release :: nat

record Service =
  service_id :: nat
  service_application :: nat

record ServiceInstall =
  si_device :: nat
  si_installs__service :: nat

record store =
  tbl_application :: "Application list"
  tbl_device :: "Device list"
  tbl_release :: "Release list"
  tbl_image :: "Image list"
  tbl_image_is_part_of_release :: "ImageIsPartOfRelease list"
  tbl_service :: "Service list"
  tbl_service_install :: "ServiceInstall list"

section \<open>Filters the hooks build\<close>

text \<open>
  A \<open>FilterObj\<close> over the device resource is an object whose keys are all required to
  hold; each key the hooks use is one clause.
\<close>

datatype device_clause =
    Belongs_to__application_in "nat list"
  | Should_be_running__release_null
  | Is_running__release_ne nat
  | Id_in "nat list"

type_synonym FilterObj = "device_clause list"

text \<open>The two release filters: \<open>{ id: r }\<close> and
  \<open>{ should_be_running_on__application: { $any: { a: { id: appId } } } }\<close>.\<close>

datatype Filter =
    Release_id nat
  | Should_be_running_on__application nat

text \<open>The second parameter of \<open>createReleaseServiceInstalls\<close>: \<open>number[] | FilterObj\<close>.\<close>

datatype deviceFilterOrIds =
    Ids "nat list"
  | Filt FilterObj

section \<open>The data-store client\<close>

text \<open>
  \<open>permissions.root\<close> against the permission context of the request that triggered
  the hook; a client carries the \<open>passthrough\<close> it was cloned with.
\<close>

datatype permissions = root | caller nat

record PinejsClient =
  passthrough_tx :: nat
  passthrough_req :: permissions

text \<open>Every call the hooks issue to the client, in the order they issue it.\<close>

datatype call =
    Get_device PinejsClient FilterObj
  | Get_service PinejsClient Filter
  | Get_service_install PinejsClient deviceFilterOrIds "nat list"
  | Post_service_install PinejsClient nat nat
  | Delete_service_install PinejsClient "nat list"

record world =
  db :: store
  calls :: "call list"

text \<open>
  Modelled from the spec: what a filter clause selects is decided by the store. \<open>$in\<close>
  is membership, \<open>null\<close> selects the rows whose column is null, and \<open>$ne\<close> selects the
  devices "whose currently running release differs from the newly pinned release": a
  device that runs no release differs from every release.
\<close>

fun device_clause_holds :: "Device \<Rightarrow> device_clause \<Rightarrow> bool" where
  "device_clause_holds d (Belongs_to__application_in ids) =
     (device_belongs_to__application d \<in> set ids)"
| "device_clause_holds d Should_be_running__release_null =
     (device_should_be_running__release d = None)"
| "device_clause_holds d (Is_running__release_ne r) =
     (device_is_running__release d \<noteq> Some r)"
| "device_clause_holds d (Id_in ids) = (device_id d \<in> set ids)"

definition device_matches :: "FilterObj \<Rightarrow> Device \<Rightarrow> bool" where
  "device_matches f d = list_all (device_clause_holds d) f"

fun release_matches :: "store \<Rightarrow> Filter \<Rightarrow> Release \<Rightarrow> bool" where
  "release_matches s (Release_id r) rel = (release_id rel = r)"
| "release_matches s (Should_be_running_on__application appId) rel =
     list_ex (\<lambda>a. application_should_be_running__release a = Some (release_id rel)
                  \<and> application_id a = appId) (tbl_application s)"

text \<open>The service filter of lines 35--60: the service is built by an image that is part
  of a release matching \<open>releaseFilter\<close>.\<close>

definition service_matches :: "store \<Rightarrow> Filter \<Rightarrow> Service \<Rightarrow> bool" where
  "service_matches s releaseFilter svc =
     list_ex (\<lambda>i. image_is_a_build_of__service i = service_id svc \<and>
        list_ex (\<lambda>ipr. ipr_image ipr = image_id i \<and>
           list_ex (\<lambda>r. release_id r = ipr_is_part_of__release ipr \<and>
                         release_matches s releaseFilter r) (tbl_release s))
          (tbl_image_is_part_of_release s))
       (tbl_image s)"

text \<open>The service-install filter of lines 72--85.\<close>

definition service_install_matches ::
  "store \<Rightarrow> deviceFilterOrIds \<Rightarrow> nat list \<Rightarrow> ServiceInstall \<Rightarrow> bool" where
  "service_install_matches s deviceFilterOrIds serviceIds si =
     ((case deviceFilterOrIds of
         Ids ids \<Rightarrow> si_device si \<in> set ids
       | Filt f \<Rightarrow> list_ex (\<lambda>d. device_id d = si_device si \<and> device_matches f d)
                     (tbl_device s))
      \<and> si_installs__service si \<in> set serviceIds)"

text \<open>The delete filter of lines 138--164.\<close>

definition current_app_matches :: "store \<Rightarrow> nat list \<Rightarrow> ServiceInstall \<Rightarrow> bool" where
  "current_app_matches s deviceIds si =
     (si_device si \<in> set deviceIds \<and>
      list_ex (\<lambda>svc. service_id svc = si_installs__service si \<and>
         list_ex (\<lambda>a. application_id a = service_application svc \<and>
            list_ex (\<lambda>d. device_belongs_to__application d = application_id a \<and>
                          device_id d \<in> set deviceIds) (tbl_device s))
           (tbl_application s))
        (tbl_service s))"

text \<open>
  Modelled from the spec: the client of \<open>@balena/pinejs\<close> (\<open>api.get\<close>, \<open>api.post\<close>,
  \<open>api.delete\<close>) is an external collaborator, "filtered read/write access to entities
  with relational filter expressions". A read returns the matching rows in storage
  order; a post appends the row; a delete removes the matching rows. Each call is
  recorded with the client that issued it. The permission context is recorded, not
  enforced, and a store operation that the store rejects (which would abort the whole
  mutation) is outside the model.
\<close>

definition api_get_device :: "PinejsClient \<Rightarrow> FilterObj \<Rightarrow> world \<Rightarrow> Device list \<times> world" where
  "api_get_device api f w =
     (filter (device_matches f) (tbl_device (db w)),
      w\<lparr>calls := calls w @ [Get_device api f]\<rparr>)"

definition api_get_service :: "PinejsClient \<Rightarrow> Filter \<Rightarrow> world \<Rightarrow> Service list \<times> world" where
  "api_get_service api releaseFilter w =
     (filter (service_matches (db w) releaseFilter) (tbl_service (db w)),
      w\<lparr>calls := calls w @ [Get_service api releaseFilter]\<rparr>)"

definition api_get_service_install ::
  "PinejsClient \<Rightarrow> deviceFilterOrIds \<Rightarrow> nat list \<Rightarrow> world \<Rightarrow> ServiceInstall list \<times> world" where
  "api_get_service_install api deviceFilterOrIds serviceIds w =
     (filter (service_install_matches (db w) deviceFilterOrIds serviceIds)
        (tbl_service_install (db w)),
      w\<lparr>calls := calls w @ [Get_service_install api deviceFilterOrIds serviceIds]\<rparr>)"

definition api_post_service_install :: "PinejsClient \<Rightarrow> nat \<Rightarrow> nat \<Rightarrow> world \<Rightarrow> world" where
  "api_post_service_install api deviceId serviceId w =
     w\<lparr>db := (db w)\<lparr>tbl_service_install := tbl_service_install (db w) @
                 [\<lparr>si_device = deviceId, si_installs__service = serviceId\<rparr>]\<rparr>,
       calls := calls w @ [Post_service_install api deviceId serviceId]\<rparr>"

section \<open>lodash\<close>

text \<open>\<open>_.groupBy\<close>: an object from key to the rows with that key, in input order; a key
  with no row is absent.\<close>

definition groupBy :: "'a list \<Rightarrow> ('a \<Rightarrow> nat) \<Rightarrow> (nat \<rightharpoonup> 'a list)" where
  "groupBy xs f k =
     (let g = filter (\<lambda>x. f x = k) xs in if g = [] then None else Some g)"

text \<open>\<open>_.map\<close> of a missing collection (\<open>undefined\<close>) is the empty array.\<close>

definition lodash_map :: "'a list option \<Rightarrow> ('a \<Rightarrow> 'b) \<Rightarrow> 'b list" where
  "lodash_map coll f = (case coll of None \<Rightarrow> [] | Some xs \<Rightarrow> map f xs)"

text \<open>\<open>_.difference\<close>: the values of the first array not in the second, in order.\<close>

definition difference :: "'a list \<Rightarrow> 'a list \<Rightarrow> 'a list" where
  "difference xs ys = filter (\<lambda>x. x \<notin> set ys) xs"

text \<open>\<open>Object.keys\<close> of a \<open>groupBy\<close> result whose keys are row ids: integer keys are
  enumerated in ascending order.\<close>

definition Object_keys :: "'a list \<Rightarrow> ('a \<Rightarrow> nat) \<Rightarrow> nat list" where
  "Object_keys xs f = sort (remdups (map f xs))"

section \<open>service-installs.ts\<close>

text \<open>The \<open>length\<close> property read at line 27: an array has one, a filter object has not.\<close>

definition js_length :: "deviceFilterOrIds \<Rightarrow> nat js" where
  "js_length x = (case x of Ids ids \<Rightarrow> Val (length ids) | Filt f \<Rightarrow> Undefined)"

text \<open>
  Lines 11--115. The posts of the two nested \<open>Promise.all\<close> are issued in the order of
  the maps, device by device, each device's missing services computed from the one
  read of line 68.
\<close>

definition createReleaseServiceInstalls ::
  "PinejsClient \<Rightarrow> deviceFilterOrIds \<Rightarrow> Filter \<Rightarrow> world \<Rightarrow> world" where
  "createReleaseServiceInstalls api deviceFilterOrIds releaseFilter w0 =
     (let (deviceIds, w1) =
            (case deviceFilterOrIds of
               Ids ids \<Rightarrow> (ids, w0)
             | Filt f \<Rightarrow> (let (rows, w) = api_get_device api f w0
                          in (map device_id rows, w)))
      in if js_length deviceFilterOrIds = Val 0 then w1
         else
           let (services, w2) = api_get_service api releaseFilter w1
           in if length services = 0 then w2
              else
                let serviceIds = map service_id services;
                    (serviceInstalls, w3) =
                       api_get_service_install api deviceFilterOrIds serviceIds w2;
                    serviceInstallsByDevice = groupBy serviceInstalls si_device
                in fold (\<lambda>deviceId.
                     let existingServiceIds =
                           lodash_map (serviceInstallsByDevice deviceId) si_installs__service;
                         deviceServiceIds = difference serviceIds existingServiceIds
                     in fold (\<lambda>serviceId. api_post_service_install api deviceId serviceId)
                          deviceServiceIds)
                     deviceIds w3)"

text \<open>Lines 117--129.\<close>

definition createAppServiceInstalls ::
  "PinejsClient \<Rightarrow> nat \<Rightarrow> nat list \<Rightarrow> world \<Rightarrow> world" where
  "createAppServiceInstalls api appId deviceIds =
     createReleaseServiceInstalls api (Ids deviceIds) (Should_be_running_on__application appId)"

text \<open>
  Lines 11--115 once more, for an id list, cut at the two awaits such a call reaches (the
  service read of line 31 and the read of service installs of line 68): what the call
  does up to each await and after the last. A part yields \<open>None\<close> when the function
  returns in it. Lemma \<open>crsi_in_parts\<close> below proves that the three parts, run one after
  the other, are \<open>createReleaseServiceInstalls\<close>.
\<close>

definition until_service_read ::
  "PinejsClient \<Rightarrow> nat list \<Rightarrow> Filter \<Rightarrow> world \<Rightarrow> Service list option \<times> world" where
  "until_service_read api deviceIds releaseFilter w =
     (if js_length (Ids deviceIds) = Val 0 then (None, w)
      else let (services, w2) = api_get_service api releaseFilter w
           in (Some services, w2))"

definition until_service_install_read ::
  "PinejsClient \<Rightarrow> nat list \<Rightarrow> Service list \<Rightarrow> world \<Rightarrow>
     (nat list \<times> ServiceInstall list) option \<times> world" where
  "until_service_install_read api deviceIds services w =
     (if length services = 0 then (None, w)
      else let serviceIds = map service_id services;
               (serviceInstalls, w3) =
                  api_get_service_install api (Ids deviceIds) serviceIds w
           in (Some (serviceIds, serviceInstalls), w3))"

definition after_service_install_read ::
  "PinejsClient \<Rightarrow> nat list \<Rightarrow> nat list \<Rightarrow> ServiceInstall list \<Rightarrow> world \<Rightarrow> world" where
  "after_service_install_read api deviceIds serviceIds serviceInstalls w =
     (let serviceInstallsByDevice = groupBy serviceInstalls si_device
      in fold (\<lambda>deviceId.
           let existingServiceIds =
                 lodash_map (serviceInstallsByDevice deviceId) si_installs__service;
               deviceServiceIds = difference serviceIds existingServiceIds
           in fold (\<lambda>serviceId. api_post_service_install api deviceId serviceId)
                deviceServiceIds)
           deviceIds w)"

text \<open>
  \<open>Promise.all\<close> over calls of \<open>createAppServiceInstalls\<close>, each given by its application
  id and its device ids (lines 256--264). The calls are started one after the other,
  and a call that is started runs up to its first await: the service reads of all
  calls are issued first, in the order of the calls.

  Modelled from the spec: "all reads and writes triggered by a single mutation's hooks
  execute within that mutation's transaction", a store that answers the calls of a
  transaction in the order they were issued. So the calls resume in the order they were
  started: each issues its read of service installs when its service read is answered,
  and then each issues its posts when that read is answered.
\<close>

fun start_all ::
  "PinejsClient \<Rightarrow> (nat \<times> nat list) list \<Rightarrow> world \<Rightarrow> (nat list \<times> Service list) list \<times> world" where
  "start_all api [] w = ([], w)"
| "start_all api ((appId, deviceIds) # ts) w =
     (case until_service_read api deviceIds (Should_be_running_on__application appId) w of
        (None, w1) \<Rightarrow> start_all api ts w1
      | (Some services, w1) \<Rightarrow>
          (let (started, w2) = start_all api ts w1
           in ((deviceIds, services) # started, w2)))"

fun resume_after_service_read ::
  "PinejsClient \<Rightarrow> (nat list \<times> Service list) list \<Rightarrow> world \<Rightarrow>
     (nat list \<times> nat list \<times> ServiceInstall list) list \<times> world" where
  "resume_after_service_read api [] w = ([], w)"
| "resume_after_service_read api ((deviceIds, services) # ts) w =
     (case until_service_install_read api deviceIds services w of
        (None, w1) \<Rightarrow> resume_after_service_read api ts w1
      | (Some (serviceIds, serviceInstalls), w1) \<Rightarrow>
          (let (waiting, w2) = resume_after_service_read api ts w1
           in ((deviceIds, serviceIds, serviceInstalls) # waiting, w2)))"

fun resume_after_service_install_read ::
  "PinejsClient \<Rightarrow> (nat list \<times> nat list \<times> ServiceInstall list) list \<Rightarrow> world \<Rightarrow> world" where
  "resume_after_service_install_read api [] w = w"
| "resume_after_service_install_read api ((deviceIds, serviceIds, serviceInstalls) # ts) w =
     resume_after_service_install_read api ts
       (after_service_install_read api deviceIds serviceIds serviceInstalls w)"

definition Promise_all_createAppServiceInstalls ::
  "PinejsClient \<Rightarrow> (nat \<times> nat list) list \<Rightarrow> world \<Rightarrow> world" where
  "Promise_all_createAppServiceInstalls api started_calls w =
     (let (started, w1) = start_all api started_calls w;
          (waiting, w2) = resume_after_service_read api started w1
      in resume_after_service_install_read api waiting w2)"

text \<open>Lines 131--166.\<close>

definition deleteServiceInstallsForCurrentApp ::
  "PinejsClient \<Rightarrow> nat list \<Rightarrow> world \<Rightarrow> world" where
  "deleteServiceInstallsForCurrentApp api deviceIds w =
     w\<lparr>db := (db w)\<lparr>tbl_service_install :=
                 filter (\<lambda>si. \<not> current_app_matches (db w) deviceIds si)
                   (tbl_service_install (db w))\<rparr>,
       calls := calls w @ [Delete_service_install api deviceIds]\<rparr>"

section \<open>Requests and hooks\<close>

text \<open>
  Modelled from the spec: the hook arguments of \<open>@balena/pinejs\<close>, "the mutation's input
  values, the set of affected row ids (computed for PATCH/DELETE before execution), the
  transaction handle, and (for POST) the newly created row's id". \<open>request_filter\<close> is
  the filter of the PATCH itself, which selects the rows it affects.
\<close>

record request_values =
  belongs_to__application :: "nat js"
  should_be_running__release :: "nat js"
  should_be_managed_by__release :: "nat js"

record request =
  request_values :: request_values
  affectedIds :: "nat list"
  request_filter :: FilterObj

text \<open>
  The body of a device POST that reached POSTRUN: a device is created in an
  application, so \<open>belongs_to__application\<close> is an id there.
\<close>

record post_values =
  post_belongs_to__application :: nat
  post_should_be_managed_by__release :: "nat js"

text \<open>
  Modelled from the spec: \<open>sbvrUtils.getAffectedIds\<close>, "resolve affected device ids",
  a read of the devices the PATCH selects, issued through the hook's client.
\<close>

definition getAffectedIds :: "PinejsClient \<Rightarrow> request \<Rightarrow> world \<Rightarrow> nat list \<times> world" where
  "getAffectedIds api req w =
     (let (rows, w') = api_get_device api (request_filter req) w
      in (map device_id rows, w'))"

text \<open>Lines 168--188: PATCH application, POSTRUN.\<close>

definition application_PATCH_POSTRUN :: "PinejsClient \<Rightarrow> request \<Rightarrow> world \<Rightarrow> world" where
  "application_PATCH_POSTRUN api req w =
     (case should_be_running__release (request_values req) of
        Val r \<Rightarrow>
          if length (affectedIds req) \<noteq> 0
          then createReleaseServiceInstalls api
                 (Filt [Belongs_to__application_in (affectedIds req),
                        Should_be_running__release_null])
                 (Release_id r) w
          else w
      | _ \<Rightarrow> w)"

text \<open>Lines 190--205: POST device, POSTRUN; \<open>deviceId\<close> is \<open>None\<close> when no device was
  created.\<close>

definition device_POST_POSTRUN ::
  "PinejsClient \<Rightarrow> nat \<Rightarrow> post_values \<Rightarrow> nat option \<Rightarrow> world \<Rightarrow> world" where
  "device_POST_POSTRUN api tx vals deviceId w =
     (case deviceId of
        None \<Rightarrow> w
      | Some d \<Rightarrow>
          let rootApi = api\<lparr>passthrough_tx := tx, passthrough_req := root\<rparr>
          in createAppServiceInstalls rootApi (post_belongs_to__application vals) [d] w)"

text \<open>Lines 207--224: PATCH device, PRERUN.\<close>

definition device_PATCH_PRERUN :: "PinejsClient \<Rightarrow> request \<Rightarrow> world \<Rightarrow> world" where
  "device_PATCH_PRERUN api req w =
     (case belongs_to__application (request_values req) of
        Val appId \<Rightarrow>
          let (affected, w1) = getAffectedIds api req w
          in if length affected \<noteq> 0
             then createAppServiceInstalls api appId affected
                    (deleteServiceInstallsForCurrentApp api affected w1)
             else w1
      | _ \<Rightarrow> w)"

text \<open>
  Lines 226--268: PATCH device, POSTRUN, release pin. In the \<open>null\<close> branch the calls of
  \<open>createAppServiceInstalls\<close>, one per key of \<open>Object.keys\<close>, run under \<open>Promise.all\<close>.
  \<open>devicesByApp[appId][0]\<close> of a missing or empty group would be a TypeError;
  \<open>groupBy\<close> never yields one for its own keys, and the model starts no call for it.
\<close>

definition device_PATCH_POSTRUN_release :: "PinejsClient \<Rightarrow> request \<Rightarrow> world \<Rightarrow> world" where
  "device_PATCH_POSTRUN_release api req w =
     (if should_be_running__release (request_values req) \<noteq> Undefined
         \<and> length (affectedIds req) \<noteq> 0
      then
        (case should_be_running__release (request_values req) of
           Val r \<Rightarrow> createReleaseServiceInstalls api (Ids (affectedIds req)) (Release_id r) w
         | _ \<Rightarrow>
            let (devices, w1) = api_get_device api [Id_in (affectedIds req)] w;
                devicesByApp = groupBy devices device_belongs_to__application
            in Promise_all_createAppServiceInstalls api
                 (concat (map (\<lambda>appId.
                    case devicesByApp appId of
                      Some (d0 # ds) \<Rightarrow>
                        [(device_belongs_to__application d0, map device_id (d0 # ds))]
                    | _ \<Rightarrow> [])
                    (Object_keys devices device_belongs_to__application)))
                 w1)
      else w)"

text \<open>Lines 270--286: POST device, POSTRUN, supervisor release.\<close>

definition device_POST_POSTRUN_supervisor ::
  "PinejsClient \<Rightarrow> nat \<Rightarrow> post_values \<Rightarrow> nat option \<Rightarrow> world \<Rightarrow> world" where
  "device_POST_POSTRUN_supervisor api tx vals deviceId w =
     (case deviceId of
        None \<Rightarrow> w
      | Some d \<Rightarrow>
          let rootApi = api\<lparr>passthrough_tx := tx, passthrough_req := root\<rparr>
          in (case post_should_be_managed_by__release vals of
                Val r \<Rightarrow> createReleaseServiceInstalls rootApi (Ids [d]) (Release_id r) w
              | _ \<Rightarrow> w))"

text \<open>Lines 288--302: PATCH device, POSTRUN, supervisor release.\<close>

definition device_PATCH_POSTRUN_supervisor :: "PinejsClient \<Rightarrow> request \<Rightarrow> world \<Rightarrow> world" where
  "device_PATCH_POSTRUN_supervisor api req w =
     (case should_be_managed_by__release (request_values req) of
        Val r \<Rightarrow>
          if length (affectedIds req) \<noteq> 0
          then createReleaseServiceInstalls api (Ids (affectedIds req)) (Release_id r) w
          else w
      | _ \<Rightarrow> w)"

section \<open>The notifier\<close>

text \<open>
  Lines 303--336. \<open>postDevices\<close> and \<open>captureException\<close> are external collaborators:
  the first is a parameter that either returns (\<open>None\<close>) or throws an error
  (\<open>Some err\<close>); what reaches them is recorded in \<open>outside\<close>.
\<close>

record postDevices_args =
  pd_url :: string
  pd_req :: permissions
  pd_filter :: FilterObj
  pd_wait :: bool

record outside =
  posted :: "postDevices_args list"
  captured :: "(string \<times> string) list"

definition captureException :: "string \<Rightarrow> string \<Rightarrow> outside \<Rightarrow> outside" where
  "captureException err message out = out\<lparr>captured := captured out @ [(err, message)]\<rparr>"

text \<open>The arguments of line 318--329, for a pinned release \<open>r\<close>.\<close>

definition update_request :: "nat list \<Rightarrow> nat \<Rightarrow> postDevices_args" where
  "update_request affected r =
     \<lparr>pd_url = ''/v1/update'', pd_req = root,
      pd_filter = [Belongs_to__application_in affected, Is_running__release_ne r,
                   Should_be_running__release_null],
      pd_wait = False\<rparr>"

text \<open>The listener of lines 315--333. Its first result is the error it lets escape
  (\<open>None\<close>: it returns normally).\<close>

definition on_end ::
  "nat list \<Rightarrow> nat \<Rightarrow> (postDevices_args \<Rightarrow> string option) \<Rightarrow> outside \<Rightarrow> string option \<times> outside" where
  "on_end affected r postDevices out =
     (let args = update_request affected r;
          out1 = out\<lparr>posted := posted out @ [args]\<rparr>
      in case postDevices args of
           None \<Rightarrow> (None, out1)
         | Some err \<Rightarrow> (None, captureException err ''Error notifying device updates'' out1))"

text \<open>The hook: the listeners it registers on the transaction's \<open>end\<close> event, each given
  by the arguments its closure captured.\<close>

definition application_PATCH_POSTRUN_notify :: "request \<Rightarrow> (nat list \<times> nat) list" where
  "application_PATCH_POSTRUN_notify req =
     (case should_be_running__release (request_values req) of
        Val r \<Rightarrow> if length (affectedIds req) \<noteq> 0 then [(affectedIds req, r)] else []
      | _ \<Rightarrow> [])"

section \<open>What a call of the reconciler does, stated on the store\<close>

text \<open>
  The definitions of this section are not translations of code: they state, as
  functions of the store before the call, which rows a call of
  \<open>createReleaseServiceInstalls\<close> adds and which client calls it issues. The lemmas
  \<open>crsi_db\<close> and \<open>crsi_calls\<close> below prove that the code does exactly that.
\<close>

definition mk_install :: "nat \<Rightarrow> nat \<Rightarrow> ServiceInstall" where
  "mk_install d sv = \<lparr>si_device = d, si_installs__service = sv\<rparr>"

text \<open>The rows for the given devices and services that are not among \<open>present\<close>, device
  by device and, for each device, in the order of the services.\<close>

definition missing_rows :: "ServiceInstall list \<Rightarrow> nat list \<Rightarrow> nat list \<Rightarrow> ServiceInstall list" where
  "missing_rows present deviceIds serviceIds =
     concat (map (\<lambda>d. map (mk_install d)
                         (filter (\<lambda>sv. mk_install d sv \<notin> set present) serviceIds))
               deviceIds)"

definition post_of :: "PinejsClient \<Rightarrow> ServiceInstall \<Rightarrow> call" where
  "post_of api si = Post_service_install api (si_device si) (si_installs__service si)"

definition resolve_deviceIds :: "store \<Rightarrow> deviceFilterOrIds \<Rightarrow> nat list" where
  "resolve_deviceIds s sel =
     (case sel of
        Ids ids \<Rightarrow> ids
      | Filt f \<Rightarrow> map device_id (filter (device_matches f) (tbl_device s)))"

definition resolve_serviceIds :: "store \<Rightarrow> Filter \<Rightarrow> nat list" where
  "resolve_serviceIds s rf = map service_id (filter (service_matches s rf) (tbl_service s))"

definition missing_for :: "store \<Rightarrow> deviceFilterOrIds \<Rightarrow> nat list \<Rightarrow> nat \<Rightarrow> nat list" where
  "missing_for s sel serviceIds d =
     difference serviceIds
       (lodash_map
          (groupBy (filter (service_install_matches s sel serviceIds) (tbl_service_install s))
             si_device d)
          si_installs__service)"

definition new_rows :: "store \<Rightarrow> deviceFilterOrIds \<Rightarrow> Filter \<Rightarrow> ServiceInstall list" where
  "new_rows s sel rf =
     (if js_length sel = Val 0 then []
      else concat (map (\<lambda>d. map (mk_install d) (missing_for s sel (resolve_serviceIds s rf) d))
                     (resolve_deviceIds s sel)))"

definition issued :: "PinejsClient \<Rightarrow> store \<Rightarrow> deviceFilterOrIds \<Rightarrow> Filter \<Rightarrow> call list" where
  "issued api s sel rf =
     (case sel of Ids ids \<Rightarrow> [] | Filt f \<Rightarrow> [Get_device api f]) @
     (if js_length sel = Val 0 then []
      else Get_service api rf #
        (if resolve_serviceIds s rf = [] then []
         else Get_service_install api sel (resolve_serviceIds s rf) #
              map (\<lambda>si. Post_service_install api (si_device si) (si_installs__service si))
                (new_rows s sel rf)))"

text \<open>Kinds of client calls, and the client a call was issued through.\<close>

fun is_delete :: "call \<Rightarrow> bool" where
  "is_delete (Delete_service_install api ids) = True"
| "is_delete c = False"

fun is_post :: "call \<Rightarrow> bool" where
  "is_post (Post_service_install api d sv) = True"
| "is_post c = False"

fun is_get_service :: "call \<Rightarrow> bool" where
  "is_get_service (Get_service api rf) = True"
| "is_get_service c = False"

fun is_get_service_install :: "call \<Rightarrow> bool" where
  "is_get_service_install (Get_service_install api sel ids) = True"
| "is_get_service_install c = False"

fun call_api :: "call \<Rightarrow> PinejsClient" where
  "call_api (Get_device api f) = api"
| "call_api (Get_service api rf) = api"
| "call_api (Get_service_install api sel ids) = api"
| "call_api (Post_service_install api d sv) = api"
| "call_api (Delete_service_install api ids) = api"

text \<open>The calls a step from \<open>w\<close> to \<open>w'\<close> added to the record.\<close>

definition calls_since :: "world \<Rightarrow> world \<Rightarrow> call list" where
  "calls_since w w' = drop (length (calls w)) (calls w')"

text \<open>A step only adds service installs: the old rows are still there, in place, every
  other table is as it was, and no delete was issued.\<close>

definition only_adds :: "world \<Rightarrow> world \<Rightarrow> bool" where
  "only_adds w w' =
     (db w' = (db w)\<lparr>tbl_service_install := tbl_service_install (db w')\<rparr> \<and>
      take (length (tbl_service_install (db w))) (tbl_service_install (db w')) =
        tbl_service_install (db w) \<and>
      take (length (calls w)) (calls w') = calls w \<and>
      filter is_delete (calls_since w w') = [])"

text \<open>Every call a step from \<open>w\<close> to \<open>w'\<close> added was issued through the client
  \<open>api\<close>, that is, in its transaction and with its permission context.\<close>

definition issued_through :: "PinejsClient \<Rightarrow> world \<Rightarrow> world \<Rightarrow> bool" where
  "issued_through api w w' =
     (take (length (calls w)) (calls w') = calls w \<and>
      list_all (\<lambda>c. call_api c = api) (calls_since w w'))"

section \<open>A small fleet\<close>

text \<open>
  Application 1 (default release 9, services 100 and 101) owns device 10 (unpinned) and
  device 11 (pinned to release 7); application 2 (default release 12, service 200) owns
  device 20. Device 10 has an install of service 100 and one of service 200.
\<close>

definition fleet :: store where
  "fleet =
     \<lparr>tbl_application =
        [\<lparr>application_id = 1, application_should_be_running__release = Some 9\<rparr>,
         \<lparr>application_id = 2, application_should_be_running__release = Some 12\<rparr>],
      tbl_device =
        [\<lparr>device_id = 10, device_belongs_to__application = 1,
          device_should_be_running__release = None, device_is_running__release = Some 7,
          device_should_be_managed_by__release = None\<rparr>,
         \<lparr>device_id = 11, device_belongs_to__application = 1,
          device_should_be_running__release = Some 7, device_is_running__release = Some 7,
          device_should_be_managed_by__release = None\<rparr>,
         \<lparr>device_id = 20, device_belongs_to__application = 2,
          device_should_be_running__release = None, device_is_running__release = None,
          device_should_be_managed_by__release = None\<rparr>],
      tbl_release = [\<lparr>release_id = 7\<rparr>, \<lparr>release_id = 9\<rparr>, \<lparr>release_id = 12\<rparr>],
      tbl_image =
        [\<lparr>image_id = 1, image_is_a_build_of__service = 100\<rparr>,
         \<lparr>image_id = 2, image_is_a_build_of__service = 101\<rparr>,
         \<lparr>image_id = 3, image_is_a_build_of__service = 200\<rparr>],
      tbl_image_is_part_of_release =
        [\<lparr>ipr_image = 1, ipr_is_part_of__release = 9\<rparr>,
         \<lparr>ipr_image = 2, ipr_is_part_of__release = 9\<rparr>,
         \<lparr>ipr_image = 3, ipr_is_part_of__release = 12\<rparr>],
      tbl_service =
        [\<lparr>service_id = 100, service_application = 1\<rparr>,
         \<lparr>service_id = 101, service_application = 1\<rparr>,
         \<lparr>service_id = 200, service_application = 2\<rparr>],
      tbl_service_install =
        [\<lparr>si_device = 10, si_installs__service = 100\<rparr>,
         \<lparr>si_device = 10, si_installs__service = 200\<rparr>]\<rparr>"

definition world0 :: world where
  "world0 = \<lparr>db = fleet, calls = []\<rparr>"

definition api0 :: PinejsClient where
  "api0 = \<lparr>passthrough_tx = 1, passthrough_req = caller 7\<rparr>"

definition created_in :: "nat \<Rightarrow> post_values" where
  "created_in app =
     \<lparr>post_belongs_to__application = app, post_should_be_managed_by__release = Undefined\<rparr>"

definition quiet :: outside where
  "quiet = \<lparr>posted = [], captured = []\<rparr>"

definition patch :: "nat js \<Rightarrow> nat js \<Rightarrow> nat js \<Rightarrow> nat list \<Rightarrow> FilterObj \<Rightarrow> request" where
  "patch app rel spv ids f =
     \<lparr>request_values = \<lparr>belongs_to__application = app, should_be_running__release = rel,
                         should_be_managed_by__release = spv\<rparr>,
      affectedIds = ids, request_filter = f\<rparr>"

section \<open>The reconciler on the store\<close>

lemma fold_post_db:
  "db (fold (\<lambda>sv. api_post_service_install api d sv) ss w) =
     (db w)\<lparr>tbl_service_install := tbl_service_install (db w) @ map (mk_install d) ss\<rparr>"
  by (induction ss arbitrary: w) (simp_all add: api_post_service_install_def mk_install_def)

lemma fold_post_calls:
  "calls (fold (\<lambda>sv. api_post_service_install api d sv) ss w) =
     calls w @ map (Post_service_install api d) ss"
  by (induction ss arbitrary: w) (simp_all add: api_post_service_install_def)

lemma fold_fold_post_db:
  "db (fold (\<lambda>d. fold (\<lambda>sv. api_post_service_install api d sv) (g d)) ds w) =
     (db w)\<lparr>tbl_service_install := tbl_service_install (db w) @
        concat (map (\<lambda>d. map (mk_install d) (g d)) ds)\<rparr>"
  by (induction ds arbitrary: w) (simp_all add: fold_post_db)

lemma fold_fold_post_calls:
  "calls (fold (\<lambda>d. fold (\<lambda>sv. api_post_service_install api d sv) (g d)) ds w) =
     calls w @ map (\<lambda>si. Post_service_install api (si_device si) (si_installs__service si))
        (concat (map (\<lambda>d. map (mk_install d) (g d)) ds))"
  by (induction ds arbitrary: w) (simp_all add: fold_post_calls mk_install_def comp_def)

lemma difference_Nil [simp]: "difference [] ys = []"
  by (simp add: difference_def)

lemma concat_map_Nil: "concat (map (\<lambda>d. []) ds) = []"
  by (induction ds) simp_all

lemma crsi_db:
  "db (createReleaseServiceInstalls api sel rf w) =
     (db w)\<lparr>tbl_service_install := tbl_service_install (db w) @ new_rows (db w) sel rf\<rparr>"
proof (cases sel)
  case (Ids ids)
  then show ?thesis
    by (simp add: createReleaseServiceInstalls_def js_length_def new_rows_def
        api_get_service_def api_get_service_install_def fold_fold_post_db Let_def
        resolve_deviceIds_def resolve_serviceIds_def missing_for_def concat_map_Nil)
next
  case (Filt f)
  then show ?thesis
    by (simp add: createReleaseServiceInstalls_def js_length_def new_rows_def
        api_get_device_def api_get_service_def api_get_service_install_def fold_fold_post_db
        Let_def resolve_deviceIds_def resolve_serviceIds_def missing_for_def concat_map_Nil)
qed

lemma crsi_calls:
  "calls (createReleaseServiceInstalls api sel rf w) = calls w @ issued api (db w) sel rf"
proof (cases sel)
  case (Ids ids)
  then show ?thesis
    by (simp add: createReleaseServiceInstalls_def js_length_def new_rows_def issued_def
        api_get_service_def api_get_service_install_def fold_fold_post_calls Let_def
        resolve_deviceIds_def resolve_serviceIds_def missing_for_def)
next
  case (Filt f)
  then show ?thesis
    by (simp add: createReleaseServiceInstalls_def js_length_def new_rows_def issued_def
        api_get_device_def api_get_service_def api_get_service_install_def fold_fold_post_calls
        Let_def resolve_deviceIds_def resolve_serviceIds_def missing_for_def)
qed

lemma mk_install_eq: "(mk_install d sv = si) = (si_device si = d \<and> si_installs__service si = sv)"
  by (cases si) (auto simp: mk_install_def)

lemma set_lodash_map_groupBy:
  "set (lodash_map (groupBy xs f k) g) = g ` {x \<in> set xs. f x = k}"
proof (cases "filter (\<lambda>x. f x = k) xs = []")
  case True
  then have "{x \<in> set xs. f x = k} = {}"
    by (auto simp: filter_empty_conv)
  with True show ?thesis
    by (simp add: lodash_map_def groupBy_def)
next
  case False
  then show ?thesis
    by (simp add: lodash_map_def groupBy_def)
qed

lemma device_part:
  "d \<in> set (resolve_deviceIds s sel) \<Longrightarrow> si_device si = d \<Longrightarrow> sv \<in> set S \<Longrightarrow>
   si_installs__service si = sv \<Longrightarrow> service_install_matches s sel S si"
  by (cases sel)
     (auto simp: resolve_deviceIds_def service_install_matches_def list_ex_iff)

lemma set_missing_for:
  assumes "d \<in> set (resolve_deviceIds s sel)"
  shows "set (missing_for s sel S d) =
           {sv \<in> set S. mk_install d sv \<notin> set (tbl_service_install s)}"
proof -
  have "\<And>sv. sv \<in> set S \<Longrightarrow>
      (sv \<in> set (lodash_map
          (groupBy (filter (service_install_matches s sel S) (tbl_service_install s))
             si_device d) si_installs__service))
      = (mk_install d sv \<in> set (tbl_service_install s))"
  proof -
    fix sv assume sv: "sv \<in> set S"
    show "(sv \<in> set (lodash_map
          (groupBy (filter (service_install_matches s sel S) (tbl_service_install s))
             si_device d) si_installs__service))
      = (mk_install d sv \<in> set (tbl_service_install s))"
    proof
      assume "sv \<in> set (lodash_map
          (groupBy (filter (service_install_matches s sel S) (tbl_service_install s))
             si_device d) si_installs__service)"
      then obtain si where si: "si \<in> set (tbl_service_install s)" "si_device si = d"
          "si_installs__service si = sv"
        unfolding set_lodash_map_groupBy by auto
      then have "mk_install d sv = si"
        by (simp add: mk_install_eq)
      with si show "mk_install d sv \<in> set (tbl_service_install s)"
        by simp
    next
      assume a: "mk_install d sv \<in> set (tbl_service_install s)"
      have m: "service_install_matches s sel S (mk_install d sv)"
        using device_part [OF assms _ sv] by (simp add: mk_install_def)
      have "mk_install d sv \<in> {x \<in> set (filter (service_install_matches s sel S)
               (tbl_service_install s)). si_device x = d}"
        using a m by (simp add: mk_install_def)
      then have "si_installs__service (mk_install d sv) \<in> si_installs__service `
           {x \<in> set (filter (service_install_matches s sel S)
               (tbl_service_install s)). si_device x = d}"
        by (rule imageI)
      then show "sv \<in> set (lodash_map
          (groupBy (filter (service_install_matches s sel S) (tbl_service_install s))
             si_device d) si_installs__service)"
        unfolding set_lodash_map_groupBy by (simp add: mk_install_def)
    qed
  qed
  then show ?thesis
    by (auto simp: missing_for_def difference_def)
qed


lemma set_new_rows:
  "set (new_rows s sel rf) =
     {si. si_device si \<in> set (resolve_deviceIds s sel) \<and>
          si_installs__service si \<in> set (resolve_serviceIds s rf) \<and>
          si \<notin> set (tbl_service_install s)}"
proof (cases "js_length sel = Val 0")
  case True
  then show ?thesis
    by (cases sel) (auto simp: new_rows_def js_length_def resolve_deviceIds_def)
next
  case False
  have "set (new_rows s sel rf) =
      (\<Union>d\<in>set (resolve_deviceIds s sel). mk_install d ` set (missing_for s sel (resolve_serviceIds s rf) d))"
    using False by (simp add: new_rows_def)
  also have "\<dots> = (\<Union>d\<in>set (resolve_deviceIds s sel). mk_install d `
        {sv \<in> set (resolve_serviceIds s rf). mk_install d sv \<notin> set (tbl_service_install s)})"
    by (intro SUP_cong refl arg_cong2 [where f=image]) (simp add: set_missing_for)
  also have "\<dots> = {si. si_device si \<in> set (resolve_deviceIds s sel) \<and>
          si_installs__service si \<in> set (resolve_serviceIds s rf) \<and>
          si \<notin> set (tbl_service_install s)}"
  proof (rule set_eqI)
    fix si
    have self: "mk_install (si_device si) (si_installs__service si) = si"
      by (simp add: mk_install_eq)
    show "(si \<in> (\<Union>d\<in>set (resolve_deviceIds s sel). mk_install d `
        {sv \<in> set (resolve_serviceIds s rf). mk_install d sv \<notin> set (tbl_service_install s)}))
      = (si \<in> {si. si_device si \<in> set (resolve_deviceIds s sel) \<and>
          si_installs__service si \<in> set (resolve_serviceIds s rf) \<and>
          si \<notin> set (tbl_service_install s)})"
    proof
      assume "si \<in> (\<Union>d\<in>set (resolve_deviceIds s sel). mk_install d `
        {sv \<in> set (resolve_serviceIds s rf). mk_install d sv \<notin> set (tbl_service_install s)})"
      then obtain d sv where "d \<in> set (resolve_deviceIds s sel)"
          "sv \<in> set (resolve_serviceIds s rf)"
          "mk_install d sv \<notin> set (tbl_service_install s)" "si = mk_install d sv"
        by auto
      then show "si \<in> {si. si_device si \<in> set (resolve_deviceIds s sel) \<and>
          si_installs__service si \<in> set (resolve_serviceIds s rf) \<and>
          si \<notin> set (tbl_service_install s)}"
        by (simp add: mk_install_def)
    next
      assume "si \<in> {si. si_device si \<in> set (resolve_deviceIds s sel) \<and>
          si_installs__service si \<in> set (resolve_serviceIds s rf) \<and>
          si \<notin> set (tbl_service_install s)}"
      then have "si_device si \<in> set (resolve_deviceIds s sel)"
        "si_installs__service si \<in> {sv \<in> set (resolve_serviceIds s rf).
            mk_install (si_device si) sv \<notin> set (tbl_service_install s)}"
        by (simp_all add: self)
      then show "si \<in> (\<Union>d\<in>set (resolve_deviceIds s sel). mk_install d `
        {sv \<in> set (resolve_serviceIds s rf). mk_install d sv \<notin> set (tbl_service_install s)})"
        using self by (intro UN_I [where a="si_device si"] image_eqI [where x="si_installs__service si"]) simp_all
    qed
  qed
  finally show ?thesis .
qed


lemma resolve_deviceIds_frame [simp]:
  "resolve_deviceIds (s\<lparr>tbl_service_install := xs\<rparr>) sel = resolve_deviceIds s sel"
  by (cases sel) (simp_all add: resolve_deviceIds_def)

lemma release_matches_frame [simp]:
  "release_matches (s\<lparr>tbl_service_install := xs\<rparr>) rf r = release_matches s rf r"
  by (cases rf) simp_all

lemma service_matches_frame [simp]:
  "service_matches (s\<lparr>tbl_service_install := xs\<rparr>) rf = service_matches s rf"
  unfolding service_matches_def fun_eq_iff by simp

lemma resolve_serviceIds_frame [simp]:
  "resolve_serviceIds (s\<lparr>tbl_service_install := xs\<rparr>) rf = resolve_serviceIds s rf"
  by (simp add: resolve_serviceIds_def)


lemma new_rows_again:
  "new_rows (s\<lparr>tbl_service_install := tbl_service_install s @ new_rows s sel rf\<rparr>) sel rf = []"
proof -
  have "set (new_rows (s\<lparr>tbl_service_install := tbl_service_install s @ new_rows s sel rf\<rparr>) sel rf) = {}"
    unfolding set_new_rows [of "s\<lparr>tbl_service_install := tbl_service_install s @ new_rows s sel rf\<rparr>"]
    by (auto simp: set_new_rows)
  then show ?thesis by simp
qed

lemma calls_since_crsi:
  "calls_since w (createReleaseServiceInstalls api sel rf w) = issued api (db w) sel rf"
  by (simp add: calls_since_def crsi_calls)

lemma new_rows_no_services: "resolve_serviceIds s rf = [] \<Longrightarrow> new_rows s sel rf = []"
  by (simp add: new_rows_def missing_for_def concat_map_Nil)

lemma filter_is_post_issued:
  "filter is_post (issued api s sel rf) =
     map (\<lambda>si. Post_service_install api (si_device si) (si_installs__service si))
       (new_rows s sel rf)"
  using new_rows_no_services [of s rf sel]
  by (cases sel) (auto simp: issued_def filter_map comp_def new_rows_def)

lemma filter_is_delete_issued: "filter is_delete (issued api s sel rf) = []"
  by (cases sel) (auto simp: issued_def filter_map comp_def)

section \<open>The reconciler in parts, and calls started together\<close>

lemma crsi_in_parts:
  "createReleaseServiceInstalls api (Ids ids) rf w =
     (case until_service_read api ids rf w of
        (None, w1) \<Rightarrow> w1
      | (Some services, w2) \<Rightarrow>
          (case until_service_install_read api ids services w2 of
             (None, w3) \<Rightarrow> w3
           | (Some (serviceIds, serviceInstalls), w3) \<Rightarrow>
               after_service_install_read api ids serviceIds serviceInstalls w3))"
  by (simp add: createReleaseServiceInstalls_def until_service_read_def
      until_service_install_read_def after_service_install_read_def Let_def split_beta)

text \<open>A single call under \<open>Promise.all\<close> is that call.\<close>

lemma promise_all_single:
  "Promise_all_createAppServiceInstalls api [(appId, ids)] w =
     createAppServiceInstalls api appId ids w"
  by (simp add: Promise_all_createAppServiceInstalls_def createAppServiceInstalls_def
      crsi_in_parts split: prod.splits option.splits)

lemma existing_iff:
  assumes d: "d \<in> set (resolve_deviceIds s sel)" and sv: "sv \<in> set S"
  shows "(sv \<in> set (lodash_map
            (groupBy (filter (service_install_matches s sel S) (tbl_service_install s))
               si_device d) si_installs__service))
         = (mk_install d sv \<in> set (tbl_service_install s))"
proof -
  have "{x. sv \<in> {sv \<in> set S. mk_install d sv \<notin> set (tbl_service_install s)}} =
        {x. sv \<in> set (missing_for s sel S d)}"
    using set_missing_for [OF d, of S] by simp
  then have "(sv \<in> set (missing_for s sel S d)) = (mk_install d sv \<notin> set (tbl_service_install s))"
    using sv set_missing_for [OF d, of S] by simp
  then show ?thesis
    using sv by (simp add: missing_for_def difference_def)
qed

lemma missing_for_exact:
  assumes "d \<in> set (resolve_deviceIds s sel)"
  shows "missing_for s sel S d =
           filter (\<lambda>sv. mk_install d sv \<notin> set (tbl_service_install s)) S"
  unfolding missing_for_def difference_def
  by (rule filter_cong [OF refl]) (simp add: existing_iff [OF assms])

lemma missing_rows_Nil [simp]: "missing_rows present [] S = []"
  by (simp add: missing_rows_def)

lemma missing_rows_no_services [simp]: "missing_rows present ids [] = []"
  by (simp add: missing_rows_def concat_map_Nil)

lemma new_rows_exact:
  "new_rows s sel rf =
     missing_rows (tbl_service_install s) (resolve_deviceIds s sel) (resolve_serviceIds s rf)"
proof (cases "js_length sel = Val 0")
  case True
  then show ?thesis
    by (cases sel) (simp_all add: new_rows_def js_length_def resolve_deviceIds_def)
next
  case False
  have m: "map (\<lambda>d. map (mk_install d) (missing_for s sel (resolve_serviceIds s rf) d))
          (resolve_deviceIds s sel) =
        map (\<lambda>d. map (mk_install d)
               (filter (\<lambda>sv. mk_install d sv \<notin> set (tbl_service_install s))
                  (resolve_serviceIds s rf)))
          (resolve_deviceIds s sel)"
    by (rule map_cong [OF refl]) (simp add: missing_for_exact)
  show ?thesis
    unfolding new_rows_def missing_rows_def m using False by simp
qed

lemma set_missing_rows:
  "set (missing_rows present ids S) =
     {si. si_device si \<in> set ids \<and> si_installs__service si \<in> set S \<and> si \<notin> set present}"
proof (rule set_eqI)
  fix si
  have self: "mk_install (si_device si) (si_installs__service si) = si"
    by (simp add: mk_install_eq)
  show "(si \<in> set (missing_rows present ids S)) =
        (si \<in> {si. si_device si \<in> set ids \<and> si_installs__service si \<in> set S \<and> si \<notin> set present})"
  proof
    assume "si \<in> set (missing_rows present ids S)"
    then obtain d sv where "d \<in> set ids" "sv \<in> set S" "mk_install d sv \<notin> set present"
        "si = mk_install d sv"
      by (auto simp: missing_rows_def)
    then show "si \<in> {si. si_device si \<in> set ids \<and> si_installs__service si \<in> set S \<and> si \<notin> set present}"
      by (simp add: mk_install_def)
  next
    assume "si \<in> {si. si_device si \<in> set ids \<and> si_installs__service si \<in> set S \<and> si \<notin> set present}"
    then have a: "si_device si \<in> set ids" "si_installs__service si \<in> set S"
        "mk_install (si_device si) (si_installs__service si) \<notin> set present"
      by (simp_all add: self)
    have "mk_install (si_device si) (si_installs__service si) \<in> set (missing_rows present ids S)"
      unfolding missing_rows_def using a by simp blast
    then show "si \<in> set (missing_rows present ids S)"
      by (simp add: self)
  qed
qed

lemma start_all_result:
  "start_all api ts w =
     (map (\<lambda>(appId, ids). (ids, filter (service_matches (db w) (Should_be_running_on__application appId))
                                 (tbl_service (db w))))
        (filter (\<lambda>t. snd t \<noteq> []) ts),
      w\<lparr>calls := calls w @
           map (\<lambda>(appId, ids). Get_service api (Should_be_running_on__application appId))
             (filter (\<lambda>t. snd t \<noteq> []) ts)\<rparr>)"
proof (induction ts arbitrary: w)
  case Nil
  show ?case by simp
next
  case (Cons t ts)
  obtain appId ids where t: "t = (appId, ids)" by (cases t)
  show ?case
    unfolding t
    by (simp add: until_service_read_def js_length_def api_get_service_def Cons.IH)
qed

lemma resume_after_service_read_result:
  "resume_after_service_read api ts w =
     (map (\<lambda>(ids, services).
             (ids, map service_id services,
              filter (service_install_matches (db w) (Ids ids) (map service_id services))
                (tbl_service_install (db w))))
        (filter (\<lambda>t. snd t \<noteq> []) ts),
      w\<lparr>calls := calls w @
           map (\<lambda>(ids, services). Get_service_install api (Ids ids) (map service_id services))
             (filter (\<lambda>t. snd t \<noteq> []) ts)\<rparr>)"
proof (induction ts arbitrary: w)
  case Nil
  show ?case by simp
next
  case (Cons t ts)
  obtain ids services where t: "t = (ids, services)" by (cases t)
  show ?case
    unfolding t
    by (simp add: until_service_install_read_def api_get_service_install_def Cons.IH Let_def)
qed

lemma after_service_install_read_db:
  "db (after_service_install_read api ids sids sis w) =
     (db w)\<lparr>tbl_service_install := tbl_service_install (db w) @
        concat (map (\<lambda>d. map (mk_install d)
                  (difference sids (lodash_map (groupBy sis si_device d) si_installs__service)))
               ids)\<rparr>"
  by (simp add: after_service_install_read_def fold_fold_post_db Let_def)

lemma after_service_install_read_calls:
  "calls (after_service_install_read api ids sids sis w) =
     calls w @ map (post_of api)
        (concat (map (\<lambda>d. map (mk_install d)
                  (difference sids (lodash_map (groupBy sis si_device d) si_installs__service)))
               ids))"
proof -
  have "post_of api = (\<lambda>si. Post_service_install api (si_device si) (si_installs__service si))"
    by (rule ext) (simp add: post_of_def)
  then show ?thesis
    by (simp add: after_service_install_read_def fold_fold_post_calls Let_def)
qed

lemma resume_after_service_install_read_db:
  "db (resume_after_service_install_read api ts w) =
     (db w)\<lparr>tbl_service_install := tbl_service_install (db w) @
        concat (map (\<lambda>(ids, sids, sis).
          concat (map (\<lambda>d. map (mk_install d)
                  (difference sids (lodash_map (groupBy sis si_device d) si_installs__service)))
               ids)) ts)\<rparr>"
proof (induction ts arbitrary: w)
  case Nil
  show ?case by simp
next
  case (Cons t ts)
  obtain ids sids sis where t: "t = (ids, sids, sis)" by (cases t)
  show ?case
    unfolding t by (simp add: Cons.IH after_service_install_read_db)
qed

lemma resume_after_service_install_read_calls:
  "calls (resume_after_service_install_read api ts w) =
     calls w @ map (post_of api)
        (concat (map (\<lambda>(ids, sids, sis).
          concat (map (\<lambda>d. map (mk_install d)
                  (difference sids (lodash_map (groupBy sis si_device d) si_installs__service)))
               ids)) ts))"
proof (induction ts arbitrary: w)
  case Nil
  show ?case by simp
next
  case (Cons t ts)
  obtain ids sids sis where t: "t = (ids, sids, sis)" by (cases t)
  show ?case
    unfolding t by (simp add: Cons.IH after_service_install_read_calls)
qed

lemma concat_map_filter_Nil:
  assumes "\<And>x. x \<in> set xs \<Longrightarrow> \<not> P x \<Longrightarrow> f x = []"
  shows "concat (map f (filter P xs)) = concat (map f xs)"
  using assms by (induction xs) auto

lemma rows_of_waiting:
  "concat (map (\<lambda>d. map (mk_install d)
            (difference S (lodash_map
               (groupBy (filter (service_install_matches s (Ids ids) S) (tbl_service_install s))
                  si_device d) si_installs__service)))
          ids) =
   missing_rows (tbl_service_install s) ids S"
proof -
  have "map (\<lambda>d. map (mk_install d)
            (difference S (lodash_map
               (groupBy (filter (service_install_matches s (Ids ids) S) (tbl_service_install s))
                  si_device d) si_installs__service))) ids =
        map (\<lambda>d. map (mk_install d)
               (filter (\<lambda>sv. mk_install d sv \<notin> set (tbl_service_install s)) S)) ids"
  proof (rule map_cong [OF refl])
    fix d assume "d \<in> set ids"
    then have "d \<in> set (resolve_deviceIds s (Ids ids))"
      by (simp add: resolve_deviceIds_def)
    from missing_for_exact [OF this, of S]
    show "map (mk_install d)
            (difference S (lodash_map
               (groupBy (filter (service_install_matches s (Ids ids) S) (tbl_service_install s))
                  si_device d) si_installs__service)) =
          map (mk_install d) (filter (\<lambda>sv. mk_install d sv \<notin> set (tbl_service_install s)) S)"
      by (simp add: missing_for_def)
  qed
  then show ?thesis
    unfolding missing_rows_def by (rule arg_cong)
qed

lemma promise_all_exact:
  assumes ne: "\<And>k. k \<in> set ks \<Longrightarrow> g k \<noteq> []"
  shows "db (Promise_all_createAppServiceInstalls api (map (\<lambda>k. (k, g k)) ks) w) =
           (db w)\<lparr>tbl_service_install := tbl_service_install (db w) @
              concat (map (\<lambda>k. missing_rows (tbl_service_install (db w)) (g k)
                             (resolve_serviceIds (db w) (Should_be_running_on__application k)))
                        ks)\<rparr> \<and>
         calls (Promise_all_createAppServiceInstalls api (map (\<lambda>k. (k, g k)) ks) w) =
           calls w @
           map (\<lambda>k. Get_service api (Should_be_running_on__application k)) ks @
           map (\<lambda>k. Get_service_install api (Ids (g k))
                      (resolve_serviceIds (db w) (Should_be_running_on__application k)))
             (filter (\<lambda>k. resolve_serviceIds (db w) (Should_be_running_on__application k) \<noteq> []) ks) @
           map (post_of api)
             (concat (map (\<lambda>k. missing_rows (tbl_service_install (db w)) (g k)
                             (resolve_serviceIds (db w) (Should_be_running_on__application k)))
                        ks))"
proof -
  let ?S = "\<lambda>k. resolve_serviceIds (db w) (Should_be_running_on__application k)"
  let ?svc = "\<lambda>k. filter (service_matches (db w) (Should_be_running_on__application k))
                     (tbl_service (db w))"
  let ?old = "tbl_service_install (db w)"
  let ?w1 = "w\<lparr>calls := calls w @
               map (\<lambda>k. Get_service api (Should_be_running_on__application k)) ks\<rparr>"
  let ?ks' = "filter (\<lambda>k. ?S k \<noteq> []) ks"
  let ?w2 = "?w1\<lparr>calls := calls ?w1 @
               map (\<lambda>k. Get_service_install api (Ids (g k)) (?S k)) ?ks'\<rparr>"
  let ?waiting = "map (\<lambda>k. (g k, ?S k,
                     filter (service_install_matches (db w) (Ids (g k)) (?S k)) ?old)) ?ks'"
  have f: "filter (\<lambda>k. g k \<noteq> []) ks = ks"
    using ne by (simp add: filter_id_conv)
  have S: "\<And>k. (?svc k \<noteq> []) = (?S k \<noteq> [])" "\<And>k. map service_id (?svc k) = ?S k"
    by (simp_all add: resolve_serviceIds_def)
  have 1: "start_all api (map (\<lambda>k. (k, g k)) ks) w = (map (\<lambda>k. (g k, ?svc k)) ks, ?w1)"
    unfolding start_all_result by (simp add: filter_map comp_def f)
  have 2: "resume_after_service_read api (map (\<lambda>k. (g k, ?svc k)) ks) ?w1 = (?waiting, ?w2)"
    unfolding resume_after_service_read_result
    by (simp add: filter_map comp_def S)
  have hook: "Promise_all_createAppServiceInstalls api (map (\<lambda>k. (k, g k)) ks) w =
      resume_after_service_install_read api ?waiting ?w2"
    by (simp add: Promise_all_createAppServiceInstalls_def 1 2 del: start_all.simps)
  have rows: "concat (map (\<lambda>(ids, sids, sis).
          concat (map (\<lambda>d. map (mk_install d)
                  (difference sids (lodash_map (groupBy sis si_device d) si_installs__service)))
               ids)) ?waiting) =
        concat (map (\<lambda>k. missing_rows ?old (g k) (?S k)) ks)"
  proof -
    have "concat (map (\<lambda>(ids, sids, sis).
          concat (map (\<lambda>d. map (mk_install d)
                  (difference sids (lodash_map (groupBy sis si_device d) si_installs__service)))
               ids)) ?waiting) =
        concat (map (\<lambda>k. missing_rows ?old (g k) (?S k)) ?ks')"
      by (simp add: comp_def rows_of_waiting)
    also have "\<dots> = concat (map (\<lambda>k. missing_rows ?old (g k) (?S k)) ks)"
      by (rule concat_map_filter_Nil) simp
    finally show ?thesis .
  qed
  show ?thesis
    unfolding hook resume_after_service_install_read_db resume_after_service_install_read_calls rows
    by simp
qed

lemma groupBy_key:
  assumes "k \<in> set (Object_keys xs f)"
  shows "\<exists>d0 ds. groupBy xs f k = Some (d0 # ds) \<and> filter (\<lambda>x. f x = k) xs = d0 # ds \<and> f d0 = k"
proof -
  from assms obtain x where x: "x \<in> set xs" "f x = k"
    by (auto simp: Object_keys_def)
  then have "filter (\<lambda>x. f x = k) xs \<noteq> []"
    by (auto simp: filter_empty_conv)
  then obtain d0 ds where e: "filter (\<lambda>x. f x = k) xs = d0 # ds"
    by (cases "filter (\<lambda>x. f x = k) xs") auto
  then have "d0 \<in> set (filter (\<lambda>x. f x = k) xs)"
    by simp
  then have "f d0 = k" by simp
  with e show ?thesis
    by (simp add: groupBy_def)
qed

lemma id_in_filter: "device_matches [Id_in ids] d = (device_id d \<in> set ids)"
  by (simp add: device_matches_def)

lemma started_calls_of_groups:
  "concat (map (\<lambda>appId.
       case groupBy devices device_belongs_to__application appId of
         Some (d0 # ds) \<Rightarrow> [(device_belongs_to__application d0, map device_id (d0 # ds))]
       | _ \<Rightarrow> [])
     (Object_keys devices device_belongs_to__application)) =
   map (\<lambda>a. (a, map device_id (filter (\<lambda>d. device_belongs_to__application d = a) devices)))
     (Object_keys devices device_belongs_to__application)"
proof -
  have m: "map (\<lambda>appId.
       case groupBy devices device_belongs_to__application appId of
         Some (d0 # ds) \<Rightarrow> [(device_belongs_to__application d0, map device_id (d0 # ds))]
       | _ \<Rightarrow> [])
     (Object_keys devices device_belongs_to__application) =
     map (\<lambda>a. [(a, map device_id (filter (\<lambda>d. device_belongs_to__application d = a) devices))])
       (Object_keys devices device_belongs_to__application)"
  proof (rule map_cong [OF refl])
    fix k assume "k \<in> set (Object_keys devices device_belongs_to__application)"
    from groupBy_key [OF this] obtain d0 ds where
      "groupBy devices device_belongs_to__application k = Some (d0 # ds)"
      "filter (\<lambda>x. device_belongs_to__application x = k) devices = d0 # ds"
      "device_belongs_to__application d0 = k"
      by blast
    then show "(case groupBy devices device_belongs_to__application k of
         Some (d0 # ds) \<Rightarrow> [(device_belongs_to__application d0, map device_id (d0 # ds))]
       | _ \<Rightarrow> []) =
      [(k, map device_id (filter (\<lambda>d. device_belongs_to__application d = k) devices))]"
      by simp
  qed
  show ?thesis
    unfolding m by (rule concat_map_singleton)
qed

lemma group_not_empty:
  assumes "k \<in> set (Object_keys devices device_belongs_to__application)"
  shows "map device_id (filter (\<lambda>d. device_belongs_to__application d = k) devices) \<noteq> []"
  using groupBy_key [OF assms] by auto

text \<open>The hook of a device release pin set to \<open>null\<close>, call by call and row by row.\<close>

lemma release_pin_null_exact:
  assumes pin: "should_be_running__release (request_values req) = Null"
      and affected: "affectedIds req \<noteq> []"
  shows
    "let devices = filter (\<lambda>d. device_id d \<in> set (affectedIds req)) (tbl_device (db w));
         apps = Object_keys devices device_belongs_to__application;
         group = (\<lambda>a. map device_id (filter (\<lambda>d. device_belongs_to__application d = a) devices));
         services = (\<lambda>a. resolve_serviceIds (db w) (Should_be_running_on__application a));
         rows = concat (map (\<lambda>a. missing_rows (tbl_service_install (db w)) (group a) (services a))
                          apps)
     in db (device_PATCH_POSTRUN_release api req w) =
          (db w)\<lparr>tbl_service_install := tbl_service_install (db w) @ rows\<rparr> \<and>
        calls (device_PATCH_POSTRUN_release api req w) =
          calls w @
          Get_device api [Id_in (affectedIds req)] #
          map (\<lambda>a. Get_service api (Should_be_running_on__application a)) apps @
          map (\<lambda>a. Get_service_install api (Ids (group a)) (services a))
            (filter (\<lambda>a. services a \<noteq> []) apps) @
          map (post_of api) rows"
proof -
  let ?devices = "filter (\<lambda>d. device_id d \<in> set (affectedIds req)) (tbl_device (db w))"
  let ?apps = "Object_keys ?devices device_belongs_to__application"
  let ?group = "\<lambda>a. map device_id (filter (\<lambda>d. device_belongs_to__application d = a) ?devices)"
  let ?w1 = "w\<lparr>calls := calls w @ [Get_device api [Id_in (affectedIds req)]]\<rparr>"
  have d: "filter (device_matches [Id_in (affectedIds req)]) (tbl_device (db w)) = ?devices"
    by (rule filter_cong [OF refl]) (simp add: id_in_filter)
  have hook: "device_PATCH_POSTRUN_release api req w =
      Promise_all_createAppServiceInstalls api (map (\<lambda>a. (a, ?group a)) ?apps) ?w1"
    using pin affected
    by (simp add: device_PATCH_POSTRUN_release_def api_get_device_def d
        started_calls_of_groups [of ?devices])
  have ne: "\<And>k. k \<in> set ?apps \<Longrightarrow> ?group k \<noteq> []"
    by (rule group_not_empty)
  show ?thesis
    unfolding Let_def hook
    using promise_all_exact [of ?apps ?group api ?w1, OF ne] by simp
qed

section \<open>Idempotence of the reconciler\<close>

text \<open>
  Claim C2. Running \<open>createReleaseServiceInstalls\<close> a second time with the same device
  selector and release filter leaves the store as the first run left it and posts
  nothing; and the rows the first run created were not present before it (the pairs
  already present are skipped by the \<open>_.difference\<close> of line 99).
\<close>

theorem reconcile_idempotent:
  "db (createReleaseServiceInstalls api sel rf (createReleaseServiceInstalls api sel rf w)) =
     db (createReleaseServiceInstalls api sel rf w) \<and>
   filter is_post
     (calls_since (createReleaseServiceInstalls api sel rf w)
        (createReleaseServiceInstalls api sel rf (createReleaseServiceInstalls api sel rf w))) = [] \<and>
   set (drop (length (tbl_service_install (db w)))
          (tbl_service_install (db (createReleaseServiceInstalls api sel rf w))))
     \<inter> set (tbl_service_install (db w)) = {}"
proof (intro conjI)
  show "db (createReleaseServiceInstalls api sel rf (createReleaseServiceInstalls api sel rf w)) =
     db (createReleaseServiceInstalls api sel rf w)"
    by (simp add: crsi_db new_rows_again)
  show "filter is_post
     (calls_since (createReleaseServiceInstalls api sel rf w)
        (createReleaseServiceInstalls api sel rf (createReleaseServiceInstalls api sel rf w))) = []"
    by (simp add: calls_since_crsi filter_is_post_issued crsi_db new_rows_again)
  show "set (drop (length (tbl_service_install (db w)))
          (tbl_service_install (db (createReleaseServiceInstalls api sel rf w))))
     \<inter> set (tbl_service_install (db w)) = {}"
    by (auto simp: crsi_db set_new_rows)
qed

section \<open>The two short circuits\<close>

text \<open>
  Claim C8. With an empty explicit id list the reconciler returns the world unchanged:
  no client call at all. When the service read of line 31 returns no row, the store is
  unchanged and the only calls issued are the device read (for a filter selector) and
  the service read: no read of service installs, no post.
\<close>

theorem empty_selectors_short_circuit:
  "createReleaseServiceInstalls api (Ids []) rf w = w \<and>
   (filter (service_matches (db w) rf) (tbl_service (db w)) = [] \<longrightarrow>
      db (createReleaseServiceInstalls api sel rf w) = db w \<and>
      calls (createReleaseServiceInstalls api sel rf w) =
        calls w @ (case sel of
                     Ids ids \<Rightarrow> if ids = [] then [] else [Get_service api rf]
                   | Filt f \<Rightarrow> [Get_device api f, Get_service api rf]))"
proof (intro conjI impI)
  show "createReleaseServiceInstalls api (Ids []) rf w = w"
    by (simp add: createReleaseServiceInstalls_def js_length_def)
next
  assume e: "filter (service_matches (db w) rf) (tbl_service (db w)) = []"
  then have r: "resolve_serviceIds (db w) rf = []"
    by (simp add: resolve_serviceIds_def)
  show "db (createReleaseServiceInstalls api sel rf w) = db w"
    by (simp add: crsi_db new_rows_no_services [OF r])
  show "calls (createReleaseServiceInstalls api sel rf w) =
        calls w @ (case sel of
                     Ids ids \<Rightarrow> if ids = [] then [] else [Get_service api rf]
                   | Filt f \<Rightarrow> [Get_device api f, Get_service api rf])"
    by (cases sel) (simp_all add: crsi_calls issued_def r js_length_def)
qed

text \<open>On the fleet: release 7 has no image, so reconciling device 10 against it issues
  the service read and nothing else.\<close>

theorem empty_selectors_short_circuit_witness:
  "createReleaseServiceInstalls api0 (Ids []) (Release_id 7) world0 = world0 \<and>
   filter (service_matches (db world0) (Release_id 7)) (tbl_service (db world0)) = [] \<and>
   db (createReleaseServiceInstalls api0 (Ids [10]) (Release_id 7) world0) = db world0 \<and>
   calls (createReleaseServiceInstalls api0 (Ids [10]) (Release_id 7) world0) =
     [Get_service api0 (Release_id 7)]"
proof -
  have e: "filter (service_matches (db world0) (Release_id 7)) (tbl_service (db world0)) = []"
    by (simp add: world0_def fleet_def service_matches_def)
  show ?thesis
    using empty_selectors_short_circuit [of api0 "Release_id 7" world0 "Ids [10]"] e
    by (simp add: world0_def)
qed

section \<open>A filter selector and the empty-device short circuit\<close>

text \<open>
  Claim C9, as the code has it. The test of line 27 reads \<open>length\<close> from the selector
  itself, so for a filter object it never holds. For a filter that matches no device the
  store is left unchanged (no post), the device read and the service read are issued,
  and the read of service installs is issued exactly when the service read returned at
  least one row (otherwise the short circuit of line 63 returns first).
\<close>

theorem filter_selector_never_short_circuits:
  assumes "filter (device_matches f) (tbl_device (db w)) = []"
  shows "js_length (Filt f) \<noteq> Val 0 \<and>
         db (createReleaseServiceInstalls api (Filt f) rf w) = db w \<and>
         calls (createReleaseServiceInstalls api (Filt f) rf w) =
           calls w @ Get_device api f # Get_service api rf #
             (if filter (service_matches (db w) rf) (tbl_service (db w)) = [] then []
              else [Get_service_install api (Filt f)
                      (map service_id (filter (service_matches (db w) rf) (tbl_service (db w))))])"
proof -
  have n: "new_rows (db w) (Filt f) rf = []"
    using assms by (simp add: new_rows_def resolve_deviceIds_def)
  show ?thesis
    by (simp add: crsi_db crsi_calls n issued_def js_length_def resolve_serviceIds_def)
qed

text \<open>No device belongs to application 3; release 9 has the services 100 and 101.\<close>

theorem filter_selector_never_short_circuits_witness:
  "filter (device_matches [Belongs_to__application_in [3], Should_be_running__release_null])
     (tbl_device (db world0)) = [] \<and>
   db (createReleaseServiceInstalls api0
         (Filt [Belongs_to__application_in [3], Should_be_running__release_null])
         (Release_id 9) world0) = db world0 \<and>
   calls (createReleaseServiceInstalls api0
         (Filt [Belongs_to__application_in [3], Should_be_running__release_null])
         (Release_id 9) world0) =
     [Get_device api0 [Belongs_to__application_in [3], Should_be_running__release_null],
      Get_service api0 (Release_id 9),
      Get_service_install api0
        (Filt [Belongs_to__application_in [3], Should_be_running__release_null]) [100, 101]]"
proof -
  have e: "filter (device_matches [Belongs_to__application_in [3], Should_be_running__release_null])
     (tbl_device (db world0)) = []"
    by (simp add: world0_def fleet_def device_matches_def)
  have s: "filter (service_matches (db world0) (Release_id 9)) (tbl_service (db world0)) =
      [\<lparr>service_id = 100, service_application = 1\<rparr>, \<lparr>service_id = 101, service_application = 1\<rparr>]"
    by (simp add: world0_def fleet_def service_matches_def)
  show ?thesis
    using filter_selector_never_short_circuits [OF e, of api0 "Release_id 9"] e s
    by (simp add: world0_def)
qed

text \<open>
  The claim as stated, that the read of service installs is issued for every filter
  matching no device, fails for a release without services: release 7 has no image,
  and the reconciler stops after the service read.
\<close>

theorem filter_selector_reads_counterexample:
  "filter (device_matches [Belongs_to__application_in [3], Should_be_running__release_null])
     (tbl_device (db world0)) = [] \<and>
   calls (createReleaseServiceInstalls api0
         (Filt [Belongs_to__application_in [3], Should_be_running__release_null])
         (Release_id 7) world0) =
     [Get_device api0 [Belongs_to__application_in [3], Should_be_running__release_null],
      Get_service api0 (Release_id 7)]"
  by code_simp

section \<open>Reconciling only adds rows\<close>

lemma only_adds_iff:
  "only_adds w w' =
     (\<exists>rows cs. db w' = (db w)\<lparr>tbl_service_install := tbl_service_install (db w) @ rows\<rparr> \<and>
        calls w' = calls w @ cs \<and> filter is_delete cs = [])"
proof
  assume a: "only_adds w w'"
  let ?rows = "drop (length (tbl_service_install (db w))) (tbl_service_install (db w'))"
  let ?cs = "calls_since w w'"
  have "tbl_service_install (db w') =
      take (length (tbl_service_install (db w))) (tbl_service_install (db w')) @ ?rows"
    by simp
  with a have t: "tbl_service_install (db w') = tbl_service_install (db w) @ ?rows"
    by (simp add: only_adds_def)
  from a have "db w' = (db w)\<lparr>tbl_service_install := tbl_service_install (db w')\<rparr>"
    by (simp add: only_adds_def)
  with t have 1: "db w' = (db w)\<lparr>tbl_service_install := tbl_service_install (db w) @ ?rows\<rparr>"
    by simp
  have "calls w' = take (length (calls w)) (calls w') @ ?cs"
    by (simp add: calls_since_def)
  with a have 2: "calls w' = calls w @ ?cs"
    by (simp add: only_adds_def)
  from a have 3: "filter is_delete ?cs = []"
    by (simp add: only_adds_def)
  from 1 2 3 show "\<exists>rows cs. db w' = (db w)\<lparr>tbl_service_install := tbl_service_install (db w) @ rows\<rparr> \<and>
        calls w' = calls w @ cs \<and> filter is_delete cs = []"
    by blast
next
  assume "\<exists>rows cs. db w' = (db w)\<lparr>tbl_service_install := tbl_service_install (db w) @ rows\<rparr> \<and>
        calls w' = calls w @ cs \<and> filter is_delete cs = []"
  then obtain rows cs where
    "db w' = (db w)\<lparr>tbl_service_install := tbl_service_install (db w) @ rows\<rparr>"
    "calls w' = calls w @ cs" "filter is_delete cs = []"
    by blast
  then show "only_adds w w'"
    by (simp add: only_adds_def calls_since_def)
qed

lemma only_adds_refl: "only_adds w w"
  by (simp add: only_adds_def calls_since_def)

lemma only_adds_trans:
  assumes "only_adds w w'" and "only_adds w' w''"
  shows "only_adds w w''"
proof -
  from assms(1) obtain rows cs where 1:
    "db w' = (db w)\<lparr>tbl_service_install := tbl_service_install (db w) @ rows\<rparr>"
    "calls w' = calls w @ cs" "filter is_delete cs = []"
    unfolding only_adds_iff by blast
  from assms(2) obtain rows' cs' where 2:
    "db w'' = (db w')\<lparr>tbl_service_install := tbl_service_install (db w') @ rows'\<rparr>"
    "calls w'' = calls w' @ cs'" "filter is_delete cs' = []"
    unfolding only_adds_iff by blast
  have "db w'' = (db w)\<lparr>tbl_service_install := tbl_service_install (db w) @ (rows @ rows')\<rparr>"
    using 1(1) 2(1) by simp
  moreover have "calls w'' = calls w @ (cs @ cs')"
    using 1(2) 2(2) by simp
  moreover have "filter is_delete (cs @ cs') = []"
    using 1(3) 2(3) by simp
  ultimately show ?thesis
    unfolding only_adds_iff by blast
qed

lemma only_adds_crsi: "only_adds w (createReleaseServiceInstalls api sel rf w)"
  unfolding only_adds_iff
  using crsi_db [of api sel rf w] crsi_calls [of api sel rf w] filter_is_delete_issued [of api "db w" sel rf]
  by blast

lemma only_adds_fold:
  assumes "\<And>k v. only_adds v (f k v)"
  shows "only_adds w (fold f ks w)"
proof (induction ks arbitrary: w)
  case Nil
  show ?case by (simp add: only_adds_refl)
next
  case (Cons k ks)
  have "only_adds w (f k w)" by (rule assms)
  moreover have "only_adds (f k w) (fold f ks (f k w))" by (rule Cons.IH)
  ultimately show ?case
    using only_adds_trans by simp
qed

lemma only_adds_get_device: "only_adds w (snd (api_get_device api f w))"
  by (simp add: only_adds_def calls_since_def api_get_device_def)

lemma only_adds_I:
  "db w' = (db w)\<lparr>tbl_service_install := tbl_service_install (db w) @ rows\<rparr> \<Longrightarrow>
   calls w' = calls w @ cs \<Longrightarrow> filter is_delete cs = [] \<Longrightarrow> only_adds w w'"
  unfolding only_adds_iff by blast

lemma only_adds_release_pin: "only_adds w (device_PATCH_POSTRUN_release api req w)"
proof (cases "should_be_running__release (request_values req) = Null \<and> affectedIds req \<noteq> []")
  case True
  then have e: "should_be_running__release (request_values req) = Null" "affectedIds req \<noteq> []"
    by simp_all
  note x = release_pin_null_exact [OF e, of w api, unfolded Let_def]
  show ?thesis
    by (rule only_adds_I [OF conjunct1 [OF x] conjunct2 [OF x]])
       (simp add: filter_map comp_def post_of_def)
next
  case False
  then show ?thesis
    by (auto simp: device_PATCH_POSTRUN_release_def only_adds_refl only_adds_crsi
        split: js.splits)
qed

text \<open>
  Claim C4. The reconciler and every hook except the migration PRERUN only add service
  installs: the rows present before are still there, in place, and no delete is issued.
  This holds in particular for the two supervisor-release hooks, so a row created for
  the main release pin survives them.
\<close>

theorem reconcilers_never_delete:
  "only_adds w (createReleaseServiceInstalls api sel rf w) \<and>
   only_adds w (createAppServiceInstalls api appId ids w) \<and>
   only_adds w (application_PATCH_POSTRUN api req w) \<and>
   only_adds w (device_POST_POSTRUN api tx vals deviceId w) \<and>
   only_adds w (device_PATCH_POSTRUN_release api req w) \<and>
   only_adds w (device_POST_POSTRUN_supervisor api tx vals deviceId w) \<and>
   only_adds w (device_PATCH_POSTRUN_supervisor api req w)"
proof (intro conjI)
  show "only_adds w (createReleaseServiceInstalls api sel rf w)"
    by (rule only_adds_crsi)
  show "only_adds w (createAppServiceInstalls api appId ids w)"
    by (simp add: createAppServiceInstalls_def only_adds_crsi)
  show "only_adds w (application_PATCH_POSTRUN api req w)"
    by (simp add: application_PATCH_POSTRUN_def only_adds_refl only_adds_crsi split: js.splits)
  show "only_adds w (device_POST_POSTRUN api tx vals deviceId w)"
    by (simp add: device_POST_POSTRUN_def createAppServiceInstalls_def only_adds_refl
        only_adds_crsi split: option.splits)
  show "only_adds w (device_PATCH_POSTRUN_release api req w)"
    by (rule only_adds_release_pin)
  show "only_adds w (device_POST_POSTRUN_supervisor api tx vals deviceId w)"
    by (simp add: device_POST_POSTRUN_supervisor_def only_adds_refl only_adds_crsi
        split: option.splits js.splits)
  show "only_adds w (device_PATCH_POSTRUN_supervisor api req w)"
    by (simp add: device_PATCH_POSTRUN_supervisor_def only_adds_refl only_adds_crsi
        split: js.splits)
qed

text \<open>On the fleet: pinning release 9 as the supervisor release of device 10 adds the
  missing row for service 101 behind the two rows the device had.\<close>

theorem reconcilers_never_delete_witness:
  "take 2 (tbl_service_install
      (db (device_PATCH_POSTRUN_supervisor api0 (patch Undefined Undefined (Val 9) [10] []) world0))) =
     tbl_service_install (db world0) \<and>
   tbl_service_install
      (db (device_PATCH_POSTRUN_supervisor api0 (patch Undefined Undefined (Val 9) [10] []) world0)) =
     tbl_service_install (db world0) @ [mk_install 10 101]"
proof -
  have l: "length (tbl_service_install (db world0)) = 2"
    by (simp add: world0_def fleet_def)
  have e: "tbl_service_install
      (db (device_PATCH_POSTRUN_supervisor api0 (patch Undefined Undefined (Val 9) [10] []) world0)) =
     tbl_service_install (db world0) @ [mk_install 10 101]"
    by code_simp
  show ?thesis
    using reconcilers_never_delete [of world0 api0 _ _ _ _ "patch Undefined Undefined (Val 9) [10] []"] l e
    by (simp add: only_adds_def)
qed

section \<open>An application pin leaves pinned devices alone\<close>

lemma unpinned_filter:
  "device_matches [Belongs_to__application_in ids, Should_be_running__release_null] d =
     (device_belongs_to__application d \<in> set ids \<and> device_should_be_running__release d = None)"
  by (simp add: device_matches_def)

lemma new_rows_device:
  "si \<in> set (new_rows s sel rf) \<Longrightarrow> si_device si \<in> set (resolve_deviceIds s sel)"
  by (simp add: set_new_rows)

lemma same_id_same_row:
  "distinct (map device_id ds) \<Longrightarrow> d \<in> set ds \<Longrightarrow> d' \<in> set ds \<Longrightarrow>
   device_id d = device_id d' \<Longrightarrow> d = d'"
  by (auto simp: distinct_map dest: inj_onD)

text \<open>
  Claim C1. For a PATCH of applications with a non-null \<open>should_be_running__release\<close>
  and at least one affected application, the reconciliation starts with the device read
  filtered on "belongs to an affected application" and "device pin is null"; it only
  adds rows; every row it adds is for a device of an affected application whose own pin
  is null; and, device ids being unique, the rows of a device with a non-null pin are
  the same after the hook as before it.
\<close>

theorem application_pin_non_interference:
  assumes pin: "should_be_running__release (request_values req) = Val r"
      and affected: "affectedIds req \<noteq> []"
  shows "(\<exists>rest. calls_since w (application_PATCH_POSTRUN api req w) =
            Get_device api [Belongs_to__application_in (affectedIds req),
                            Should_be_running__release_null] # rest) \<and>
         only_adds w (application_PATCH_POSTRUN api req w) \<and>
         (\<forall>si \<in> set (drop (length (tbl_service_install (db w)))
                      (tbl_service_install (db (application_PATCH_POSTRUN api req w)))).
            \<exists>d \<in> set (tbl_device (db w)).
              device_id d = si_device si \<and>
              device_belongs_to__application d \<in> set (affectedIds req) \<and>
              device_should_be_running__release d = None) \<and>
         (distinct (map device_id (tbl_device (db w))) \<longrightarrow>
            (\<forall>dev \<in> set (tbl_device (db w)).
               device_should_be_running__release dev \<noteq> None \<longrightarrow>
               filter (\<lambda>si. si_device si = device_id dev)
                 (tbl_service_install (db (application_PATCH_POSTRUN api req w))) =
               filter (\<lambda>si. si_device si = device_id dev) (tbl_service_install (db w))))"
proof -
  let ?f = "[Belongs_to__application_in (affectedIds req), Should_be_running__release_null]"
  let ?sel = "Filt ?f"
  let ?w' = "application_PATCH_POSTRUN api req w"
  have hook: "?w' = createReleaseServiceInstalls api ?sel (Release_id r) w"
    using pin affected by (simp add: application_PATCH_POSTRUN_def)
  have rows: "drop (length (tbl_service_install (db w))) (tbl_service_install (db ?w')) =
      new_rows (db w) ?sel (Release_id r)"
    by (simp add: hook crsi_db)
  have sel: "\<And>si. si \<in> set (new_rows (db w) ?sel (Release_id r)) \<Longrightarrow>
      \<exists>d \<in> set (tbl_device (db w)).
              device_id d = si_device si \<and>
              device_belongs_to__application d \<in> set (affectedIds req) \<and>
              device_should_be_running__release d = None"
  proof -
    fix si assume "si \<in> set (new_rows (db w) ?sel (Release_id r))"
    then have "si_device si \<in> set (resolve_deviceIds (db w) ?sel)"
      by (rule new_rows_device)
    then obtain d where "d \<in> set (tbl_device (db w))" "device_matches ?f d"
        "device_id d = si_device si"
      by (auto simp: resolve_deviceIds_def)
    then show "\<exists>d \<in> set (tbl_device (db w)).
              device_id d = si_device si \<and>
              device_belongs_to__application d \<in> set (affectedIds req) \<and>
              device_should_be_running__release d = None"
      unfolding unpinned_filter by blast
  qed
  have 1: "\<exists>rest. calls_since w ?w' = Get_device api ?f # rest"
    by (simp add: hook calls_since_crsi issued_def)
  have 2: "only_adds w ?w'"
    unfolding hook by (rule only_adds_crsi)
  have 3: "\<forall>si \<in> set (drop (length (tbl_service_install (db w))) (tbl_service_install (db ?w'))).
            \<exists>d \<in> set (tbl_device (db w)).
              device_id d = si_device si \<and>
              device_belongs_to__application d \<in> set (affectedIds req) \<and>
              device_should_be_running__release d = None"
    unfolding rows using sel by blast
  have 4: "distinct (map device_id (tbl_device (db w))) \<longrightarrow>
            (\<forall>dev \<in> set (tbl_device (db w)).
               device_should_be_running__release dev \<noteq> None \<longrightarrow>
               filter (\<lambda>si. si_device si = device_id dev) (tbl_service_install (db ?w')) =
               filter (\<lambda>si. si_device si = device_id dev) (tbl_service_install (db w)))"
  proof (intro impI ballI)
    fix dev
    assume dist: "distinct (map device_id (tbl_device (db w)))"
      and dev: "dev \<in> set (tbl_device (db w))"
      and pinned: "device_should_be_running__release dev \<noteq> None"
    have "filter (\<lambda>si. si_device si = device_id dev) (new_rows (db w) ?sel (Release_id r)) = []"
    proof (rule ccontr)
      assume "filter (\<lambda>si. si_device si = device_id dev) (new_rows (db w) ?sel (Release_id r)) \<noteq> []"
      then obtain si where si: "si \<in> set (new_rows (db w) ?sel (Release_id r))"
          "si_device si = device_id dev"
        by (auto simp: filter_empty_conv)
      from sel [OF si(1)] obtain d where d: "d \<in> set (tbl_device (db w))"
          "device_id d = si_device si" "device_should_be_running__release d = None"
        by blast
      from dist d(1) dev have "d = dev"
        using d(2) si(2) by (intro same_id_same_row [of "tbl_device (db w)"]) simp_all
      with d(3) pinned show False by simp
    qed
    then show "filter (\<lambda>si. si_device si = device_id dev) (tbl_service_install (db ?w')) =
               filter (\<lambda>si. si_device si = device_id dev) (tbl_service_install (db w))"
      by (simp add: hook crsi_db)
  qed
  from 1 2 3 4 show ?thesis by blast
qed

text \<open>On the fleet: pinning application 1 to release 9 gives the pinned device 11 no
  row.\<close>

theorem application_pin_non_interference_witness:
  "should_be_running__release (request_values (patch Undefined (Val 9) Undefined [1] [])) = Val 9 \<and>
   affectedIds (patch Undefined (Val 9) Undefined [1] []) \<noteq> [] \<and>
   distinct (map device_id (tbl_device (db world0))) \<and>
   only_adds world0 (application_PATCH_POSTRUN api0 (patch Undefined (Val 9) Undefined [1] []) world0) \<and>
   filter (\<lambda>si. si_device si = 11)
     (tbl_service_install (db (application_PATCH_POSTRUN api0 (patch Undefined (Val 9) Undefined [1] []) world0)))
     = []"
proof -
  have p: "should_be_running__release (request_values (patch Undefined (Val 9) Undefined [1] [])) = Val 9"
    and a: "affectedIds (patch Undefined (Val 9) Undefined [1] []) \<noteq> []"
    by (simp_all add: patch_def)
  have d: "distinct (map device_id (tbl_device (db world0)))"
    by (simp add: world0_def fleet_def)
  show ?thesis
    using application_pin_non_interference [OF p a, of world0 api0] p a d
    by (simp add: world0_def fleet_def)
qed

section \<open>Migration: purge, then create\<close>

text \<open>
  Claim C3. For a PATCH of devices with a non-null \<open>belongs_to__application\<close> and at
  least one affected device, the PRERUN hook issues, in this order: the read that
  resolves the affected ids; the delete for them; the service read for the release the
  destination application should be running; and, unless that release has no service,
  the read of the affected devices' installs of those services followed by one post for
  every pair of an affected device and such a service that the purged table lacks. The
  table after the hook is the purged table followed by exactly those rows, so it holds
  the purged rows and a row for every affected device and every service of the
  destination application's release.
\<close>

theorem migration_purges_before_creating:
  assumes app: "belongs_to__application (request_values req) = Val appId"
      and affected: "fst (getAffectedIds api req w) \<noteq> []"
  shows
    "let ids = fst (getAffectedIds api req w);
         purged = filter (\<lambda>si. \<not> current_app_matches (db w) ids si)
                    (tbl_service_install (db w));
         services = resolve_serviceIds (db w) (Should_be_running_on__application appId);
         rows = missing_rows purged ids services
     in calls_since w (device_PATCH_PRERUN api req w) =
          Get_device api (request_filter req) #
          Delete_service_install api ids #
          Get_service api (Should_be_running_on__application appId) #
          (if services = [] then []
           else Get_service_install api (Ids ids) services # map (post_of api) rows) \<and>
        db (device_PATCH_PRERUN api req w) = (db w)\<lparr>tbl_service_install := purged @ rows\<rparr> \<and>
        set (tbl_service_install (db (device_PATCH_PRERUN api req w))) =
          set purged \<union>
          {si. si_device si \<in> set ids \<and> si_installs__service si \<in> set services}"
proof -
  let ?ids = "fst (getAffectedIds api req w)"
  let ?w1 = "snd (getAffectedIds api req w)"
  let ?wd = "deleteServiceInstallsForCurrentApp api ?ids ?w1"
  let ?w' = "device_PATCH_PRERUN api req w"
  let ?rf = "Should_be_running_on__application appId"
  let ?purged = "filter (\<lambda>si. \<not> current_app_matches (db w) ?ids si) (tbl_service_install (db w))"
  let ?S = "resolve_serviceIds (db w) ?rf"
  let ?rows = "missing_rows ?purged ?ids ?S"
  have hook: "?w' = createReleaseServiceInstalls api (Ids ?ids) ?rf ?wd"
    using app affected
    by (simp add: device_PATCH_PRERUN_def createAppServiceInstalls_def split_beta)
  have w1: "calls ?w1 = calls w @ [Get_device api (request_filter req)]" "db ?w1 = db w"
    by (simp_all add: getAffectedIds_def api_get_device_def)
  have wd: "calls ?wd = calls w @ [Get_device api (request_filter req), Delete_service_install api ?ids]"
    "db ?wd = (db w)\<lparr>tbl_service_install := ?purged\<rparr>"
    by (simp_all add: deleteServiceInstallsForCurrentApp_def w1)
  have rows: "new_rows (db ?wd) (Ids ?ids) ?rf = ?rows"
    by (simp add: new_rows_exact wd resolve_deviceIds_def)
  have p: "(\<lambda>si. Post_service_install api (si_device si) (si_installs__service si)) = post_of api"
    by (rule ext) (simp add: post_of_def)
  have 1: "calls_since w ?w' =
          Get_device api (request_filter req) # Delete_service_install api ?ids #
          Get_service api ?rf #
          (if ?S = [] then [] else Get_service_install api (Ids ?ids) ?S # map (post_of api) ?rows)"
    using affected
    by (simp add: hook crsi_calls wd(1) calls_since_def issued_def js_length_def rows p)
       (simp add: wd(2))
  have 2: "db ?w' = (db w)\<lparr>tbl_service_install := ?purged @ ?rows\<rparr>"
    by (simp add: hook crsi_db rows) (simp add: wd(2))
  have 3: "set (tbl_service_install (db ?w')) =
          set ?purged \<union> {si. si_device si \<in> set ?ids \<and> si_installs__service si \<in> set ?S}"
    unfolding 2 by (auto simp: set_missing_rows)
  from 1 2 3 show ?thesis
    unfolding Let_def by blast
qed

text \<open>On the fleet: moving device 20 to application 1, whose release 9 has the services
  100 and 101.\<close>

theorem migration_purges_before_creating_witness:
  "belongs_to__application (request_values (patch (Val 1) Undefined Undefined [] [Id_in [20]])) = Val 1 \<and>
   fst (getAffectedIds api0 (patch (Val 1) Undefined Undefined [] [Id_in [20]]) world0) = [20] \<and>
   calls (device_PATCH_PRERUN api0 (patch (Val 1) Undefined Undefined [] [Id_in [20]]) world0) =
     [Get_device api0 [Id_in [20]], Delete_service_install api0 [20],
      Get_service api0 (Should_be_running_on__application 1),
      Get_service_install api0 (Ids [20]) [100, 101],
      Post_service_install api0 20 100, Post_service_install api0 20 101] \<and>
   tbl_service_install
     (db (device_PATCH_PRERUN api0 (patch (Val 1) Undefined Undefined [] [Id_in [20]]) world0)) =
     [mk_install 10 100, mk_install 10 200, mk_install 20 100, mk_install 20 101]"
proof -
  let ?req = "patch (Val 1) Undefined Undefined [] [Id_in [20]]"
  have p: "belongs_to__application (request_values ?req) = Val 1"
    by (simp add: patch_def)
  have a: "fst (getAffectedIds api0 ?req world0) = [20]"
    by code_simp
  then have a': "fst (getAffectedIds api0 ?req world0) \<noteq> []"
    by simp
  have s: "resolve_serviceIds (db world0) (Should_be_running_on__application 1) = [100, 101]"
    by code_simp
  have d: "filter (\<lambda>si. \<not> current_app_matches (db world0) [20] si)
      (tbl_service_install (db world0)) = [mk_install 10 100, mk_install 10 200]"
    by code_simp
  have m: "missing_rows [mk_install 10 100, mk_install 10 200] [20] [100, 101] =
      [mk_install 20 100, mk_install 20 101]"
    by code_simp
  have c: "calls world0 = []"
    by (simp add: world0_def)
  note x = migration_purges_before_creating [OF p a', unfolded Let_def a s d m]
  have 1: "calls (device_PATCH_PRERUN api0 ?req world0) =
     [Get_device api0 [Id_in [20]], Delete_service_install api0 [20],
      Get_service api0 (Should_be_running_on__application 1),
      Get_service_install api0 (Ids [20]) [100, 101],
      Post_service_install api0 20 100, Post_service_install api0 20 101]"
    using conjunct1 [OF x]
    by (simp add: calls_since_def c post_of_def mk_install_def patch_def)
  have 2: "tbl_service_install (db (device_PATCH_PRERUN api0 ?req world0)) =
     [mk_install 10 100, mk_install 10 200, mk_install 20 100, mk_install 20 101]"
    using conjunct1 [OF conjunct2 [OF x]] by simp
  from p a 1 2 show ?thesis by blast
qed

section \<open>A device release pin\<close>

lemma set_after_crsi:
  "set (tbl_service_install (db (createReleaseServiceInstalls api sel rf w))) =
     set (tbl_service_install (db w)) \<union>
     {si. si_device si \<in> set (resolve_deviceIds (db w) sel) \<and>
          si_installs__service si \<in> set (resolve_serviceIds (db w) rf)}"
  by (auto simp: crsi_db set_new_rows)

text \<open>
  Claim C5. For a PATCH of devices that carries the key \<open>should_be_running__release\<close>
  and affects at least one device: with a release \<open>r\<close> the hook is the reconciliation of
  the affected devices against \<open>r\<close>, after which the table holds the old rows and a row
  for every affected device and every service of \<open>r\<close>. With \<open>null\<close> the hook first reads
  the affected devices with their application and groups them by application. It then
  issues, for every application of the groups, the service read for the release that
  application should be running; for every application whose release has a service, the
  read of its group's installs of those services; and one post for every pair of a
  device of a group and a service of its application's release that the table lacks.
  The table after the hook is the old table followed by exactly those rows, so it
  holds the old rows and, for every affected device, a row for every service of its own
  application's release.
\<close>

theorem device_release_pin_update:
  assumes affected: "affectedIds req \<noteq> []"
  shows "(\<forall>r. should_be_running__release (request_values req) = Val r \<longrightarrow>
            device_PATCH_POSTRUN_release api req w =
              createReleaseServiceInstalls api (Ids (affectedIds req)) (Release_id r) w \<and>
            set (tbl_service_install (db (device_PATCH_POSTRUN_release api req w))) =
              set (tbl_service_install (db w)) \<union>
              {si. si_device si \<in> set (affectedIds req) \<and>
                   si_installs__service si \<in> set (resolve_serviceIds (db w) (Release_id r))}) \<and>
         (should_be_running__release (request_values req) = Null \<longrightarrow>
            (let devices = filter (\<lambda>d. device_id d \<in> set (affectedIds req)) (tbl_device (db w));
                 apps = Object_keys devices device_belongs_to__application;
                 group = (\<lambda>a. map device_id
                                 (filter (\<lambda>d. device_belongs_to__application d = a) devices));
                 services = (\<lambda>a. resolve_serviceIds (db w) (Should_be_running_on__application a));
                 rows = concat (map (\<lambda>a. missing_rows (tbl_service_install (db w))
                                           (group a) (services a)) apps)
             in calls_since w (device_PATCH_POSTRUN_release api req w) =
                  Get_device api [Id_in (affectedIds req)] #
                  map (\<lambda>a. Get_service api (Should_be_running_on__application a)) apps @
                  map (\<lambda>a. Get_service_install api (Ids (group a)) (services a))
                    (filter (\<lambda>a. services a \<noteq> []) apps) @
                  map (post_of api) rows \<and>
                db (device_PATCH_POSTRUN_release api req w) =
                  (db w)\<lparr>tbl_service_install := tbl_service_install (db w) @ rows\<rparr>) \<and>
            set (tbl_service_install (db (device_PATCH_POSTRUN_release api req w))) =
              set (tbl_service_install (db w)) \<union>
              {si. \<exists>d \<in> set (tbl_device (db w)).
                     device_id d \<in> set (affectedIds req) \<and> si_device si = device_id d \<and>
                     si_installs__service si \<in>
                       set (resolve_serviceIds (db w)
                              (Should_be_running_on__application
                                 (device_belongs_to__application d)))})"
proof (intro conjI allI impI)
  fix r assume pin: "should_be_running__release (request_values req) = Val r"
  show hook: "device_PATCH_POSTRUN_release api req w =
      createReleaseServiceInstalls api (Ids (affectedIds req)) (Release_id r) w"
    using pin affected by (simp add: device_PATCH_POSTRUN_release_def)
  show "set (tbl_service_install (db (device_PATCH_POSTRUN_release api req w))) =
              set (tbl_service_install (db w)) \<union>
              {si. si_device si \<in> set (affectedIds req) \<and>
                   si_installs__service si \<in> set (resolve_serviceIds (db w) (Release_id r))}"
    unfolding hook set_after_crsi by (simp add: resolve_deviceIds_def)
next
  assume pin: "should_be_running__release (request_values req) = Null"
  note x = release_pin_null_exact [OF pin affected, of w api, unfolded Let_def]
  show "let devices = filter (\<lambda>d. device_id d \<in> set (affectedIds req)) (tbl_device (db w));
                 apps = Object_keys devices device_belongs_to__application;
                 group = (\<lambda>a. map device_id
                                 (filter (\<lambda>d. device_belongs_to__application d = a) devices));
                 services = (\<lambda>a. resolve_serviceIds (db w) (Should_be_running_on__application a));
                 rows = concat (map (\<lambda>a. missing_rows (tbl_service_install (db w))
                                           (group a) (services a)) apps)
             in calls_since w (device_PATCH_POSTRUN_release api req w) =
                  Get_device api [Id_in (affectedIds req)] #
                  map (\<lambda>a. Get_service api (Should_be_running_on__application a)) apps @
                  map (\<lambda>a. Get_service_install api (Ids (group a)) (services a))
                    (filter (\<lambda>a. services a \<noteq> []) apps) @
                  map (post_of api) rows \<and>
                db (device_PATCH_POSTRUN_release api req w) =
                  (db w)\<lparr>tbl_service_install := tbl_service_install (db w) @ rows\<rparr>"
    unfolding Let_def calls_since_def conjunct2 [OF x] using conjunct1 [OF x] by simp
  show "set (tbl_service_install (db (device_PATCH_POSTRUN_release api req w))) =
              set (tbl_service_install (db w)) \<union>
              {si. \<exists>d \<in> set (tbl_device (db w)).
                     device_id d \<in> set (affectedIds req) \<and> si_device si = device_id d \<and>
                     si_installs__service si \<in>
                       set (resolve_serviceIds (db w)
                              (Should_be_running_on__application
                                 (device_belongs_to__application d)))}"
    unfolding conjunct1 [OF x]
    by (auto simp: set_missing_rows Object_keys_def)
qed

text \<open>On the fleet: pinning devices 10 and 11 to release 9, and clearing the pin of
  devices 20, 10 and 11. For the cleared pin both service reads come first, then both
  reads of service installs, then the posts; device 20 gets service 200 of application
  2, not service 100.\<close>

theorem device_release_pin_update_witness:
  "affectedIds (patch Undefined (Val 9) Undefined [10, 11] []) \<noteq> [] \<and>
   should_be_running__release (request_values (patch Undefined (Val 9) Undefined [10, 11] [])) = Val 9 \<and>
   set (tbl_service_install
          (db (device_PATCH_POSTRUN_release api0 (patch Undefined (Val 9) Undefined [10, 11] []) world0))) =
     set (tbl_service_install (db world0)) \<union>
     {si. si_device si \<in> {10, 11} \<and> si_installs__service si \<in> {100, 101}} \<and>
   affectedIds (patch Undefined Null Undefined [20, 10, 11] []) \<noteq> [] \<and>
   should_be_running__release (request_values (patch Undefined Null Undefined [20, 10, 11] [])) = Null \<and>
   calls (device_PATCH_POSTRUN_release api0 (patch Undefined Null Undefined [20, 10, 11] []) world0) =
     [Get_device api0 [Id_in [20, 10, 11]],
      Get_service api0 (Should_be_running_on__application 1),
      Get_service api0 (Should_be_running_on__application 2),
      Get_service_install api0 (Ids [10, 11]) [100, 101],
      Get_service_install api0 (Ids [20]) [200],
      Post_service_install api0 10 101, Post_service_install api0 11 100,
      Post_service_install api0 11 101, Post_service_install api0 20 200] \<and>
   tbl_service_install
     (db (device_PATCH_POSTRUN_release api0 (patch Undefined Null Undefined [20, 10, 11] []) world0)) =
     [mk_install 10 100, mk_install 10 200, mk_install 10 101, mk_install 11 100,
      mk_install 11 101, mk_install 20 200]"
proof -
  let ?p = "patch Undefined (Val 9) Undefined [10, 11] []"
  let ?q = "patch Undefined Null Undefined [20, 10, 11] []"
  have p: "affectedIds ?p \<noteq> []" "should_be_running__release (request_values ?p) = Val 9"
    and q: "affectedIds ?q \<noteq> []" "should_be_running__release (request_values ?q) = Null"
    by (simp_all add: patch_def)
  have s9: "resolve_serviceIds fleet (Release_id 9) = [100, 101]"
    by code_simp
  have 1: "set (tbl_service_install (db (device_PATCH_POSTRUN_release api0 ?p world0))) =
     set (tbl_service_install (db world0)) \<union>
     {si. si_device si \<in> {10, 11} \<and> si_installs__service si \<in> {100, 101}}"
  proof -
    have "set (tbl_service_install (db (device_PATCH_POSTRUN_release api0 ?p world0))) =
       set (tbl_service_install (db world0)) \<union>
       {si. si_device si \<in> set (affectedIds ?p) \<and>
            si_installs__service si \<in> set (resolve_serviceIds (db world0) (Release_id 9))}"
      using device_release_pin_update [OF p(1), of api0 world0] p(2) by blast
    moreover have "affectedIds ?p = [10, 11]" "db world0 = fleet"
      by (simp_all add: patch_def world0_def)
    ultimately show ?thesis
      by (simp add: s9)
  qed
  have c: "Get_device api0 [Id_in (affectedIds ?q)] #
      map (\<lambda>a. Get_service api0 (Should_be_running_on__application a))
        (Object_keys (filter (\<lambda>d. device_id d \<in> set (affectedIds ?q)) (tbl_device (db world0)))
           device_belongs_to__application) @
      map (\<lambda>a. Get_service_install api0
             (Ids (map device_id (filter (\<lambda>d. device_belongs_to__application d = a)
                (filter (\<lambda>d. device_id d \<in> set (affectedIds ?q)) (tbl_device (db world0))))))
             (resolve_serviceIds (db world0) (Should_be_running_on__application a)))
        (filter (\<lambda>a. resolve_serviceIds (db world0) (Should_be_running_on__application a) \<noteq> [])
           (Object_keys (filter (\<lambda>d. device_id d \<in> set (affectedIds ?q)) (tbl_device (db world0)))
              device_belongs_to__application)) @
      map (post_of api0)
        (concat (map (\<lambda>a. missing_rows (tbl_service_install (db world0))
             (map device_id (filter (\<lambda>d. device_belongs_to__application d = a)
                (filter (\<lambda>d. device_id d \<in> set (affectedIds ?q)) (tbl_device (db world0)))))
             (resolve_serviceIds (db world0) (Should_be_running_on__application a)))
           (Object_keys (filter (\<lambda>d. device_id d \<in> set (affectedIds ?q)) (tbl_device (db world0)))
              device_belongs_to__application))) =
     [Get_device api0 [Id_in [20, 10, 11]],
      Get_service api0 (Should_be_running_on__application 1),
      Get_service api0 (Should_be_running_on__application 2),
      Get_service_install api0 (Ids [10, 11]) [100, 101],
      Get_service_install api0 (Ids [20]) [200],
      Post_service_install api0 10 101, Post_service_install api0 11 100,
      Post_service_install api0 11 101, Post_service_install api0 20 200]"
    by code_simp
  have t: "tbl_service_install (db world0) @
        concat (map (\<lambda>a. missing_rows (tbl_service_install (db world0))
             (map device_id (filter (\<lambda>d. device_belongs_to__application d = a)
                (filter (\<lambda>d. device_id d \<in> set (affectedIds ?q)) (tbl_device (db world0)))))
             (resolve_serviceIds (db world0) (Should_be_running_on__application a)))
           (Object_keys (filter (\<lambda>d. device_id d \<in> set (affectedIds ?q)) (tbl_device (db world0)))
              device_belongs_to__application)) =
     [mk_install 10 100, mk_install 10 200, mk_install 10 101, mk_install 11 100,
      mk_install 11 101, mk_install 20 200]"
    by code_simp
  have e: "calls world0 = []"
    by (simp add: world0_def)
  note y = device_release_pin_update [OF q(1), of api0 world0, unfolded Let_def,
      THEN conjunct2, THEN mp, OF q(2), THEN conjunct1]
  have x: "calls_since world0 (device_PATCH_POSTRUN_release api0 ?q world0) =
     [Get_device api0 [Id_in [20, 10, 11]],
      Get_service api0 (Should_be_running_on__application 1),
      Get_service api0 (Should_be_running_on__application 2),
      Get_service_install api0 (Ids [10, 11]) [100, 101],
      Get_service_install api0 (Ids [20]) [200],
      Post_service_install api0 10 101, Post_service_install api0 11 100,
      Post_service_install api0 11 101, Post_service_install api0 20 200]"
    "tbl_service_install (db (device_PATCH_POSTRUN_release api0 ?q world0)) =
     [mk_install 10 100, mk_install 10 200, mk_install 10 101, mk_install 11 100,
      mk_install 11 101, mk_install 20 200]"
  proof -
    show "calls_since world0 (device_PATCH_POSTRUN_release api0 ?q world0) =
     [Get_device api0 [Id_in [20, 10, 11]],
      Get_service api0 (Should_be_running_on__application 1),
      Get_service api0 (Should_be_running_on__application 2),
      Get_service_install api0 (Ids [10, 11]) [100, 101],
      Get_service_install api0 (Ids [20]) [200],
      Post_service_install api0 10 101, Post_service_install api0 11 100,
      Post_service_install api0 11 101, Post_service_install api0 20 200]"
      unfolding conjunct1 [OF y] by (rule c)
    show "tbl_service_install (db (device_PATCH_POSTRUN_release api0 ?q world0)) =
     [mk_install 10 100, mk_install 10 200, mk_install 10 101, mk_install 11 100,
      mk_install 11 101, mk_install 20 200]"
      unfolding conjunct2 [OF y] using t by simp
  qed
  from x(1) have 2: "calls (device_PATCH_POSTRUN_release api0 ?q world0) =
     [Get_device api0 [Id_in [20, 10, 11]],
      Get_service api0 (Should_be_running_on__application 1),
      Get_service api0 (Should_be_running_on__application 2),
      Get_service_install api0 (Ids [10, 11]) [100, 101],
      Get_service_install api0 (Ids [20]) [200],
      Post_service_install api0 10 101, Post_service_install api0 11 100,
      Post_service_install api0 11 101, Post_service_install api0 20 200]"
    by (simp add: calls_since_def e)
  from p q 1 2 x(2) show ?thesis by blast
qed

section \<open>The client each trigger uses\<close>

lemma issued_through_iff:
  "issued_through api w w' =
     (\<exists>cs. calls w' = calls w @ cs \<and> list_all (\<lambda>c. call_api c = api) cs)"
proof
  assume a: "issued_through api w w'"
  have "calls w' = take (length (calls w)) (calls w') @ calls_since w w'"
    by (simp add: calls_since_def)
  with a have "calls w' = calls w @ calls_since w w'"
    by (simp add: issued_through_def)
  with a show "\<exists>cs. calls w' = calls w @ cs \<and> list_all (\<lambda>c. call_api c = api) cs"
    unfolding issued_through_def by blast
next
  assume "\<exists>cs. calls w' = calls w @ cs \<and> list_all (\<lambda>c. call_api c = api) cs"
  then show "issued_through api w w'"
    by (auto simp: issued_through_def calls_since_def)
qed

lemma issued_through_refl: "issued_through api w w"
  by (simp add: issued_through_def calls_since_def)

lemma issued_through_trans:
  assumes "issued_through api w w'" and "issued_through api w' w''"
  shows "issued_through api w w''"
proof -
  from assms obtain cs cs' where
    "calls w' = calls w @ cs" "list_all (\<lambda>c. call_api c = api) cs"
    "calls w'' = calls w' @ cs'" "list_all (\<lambda>c. call_api c = api) cs'"
    unfolding issued_through_iff by blast
  then have "calls w'' = calls w @ (cs @ cs')" "list_all (\<lambda>c. call_api c = api) (cs @ cs')"
    by simp_all
  then show ?thesis
    unfolding issued_through_iff by blast
qed

lemma issued_call_api: "list_all (\<lambda>c. call_api c = api) (issued api s sel rf)"
  by (cases sel) (simp_all add: issued_def list_all_iff)

lemma issued_through_crsi:
  "issued_through api w (createReleaseServiceInstalls api sel rf w)"
  unfolding issued_through_iff using crsi_calls issued_call_api by blast

lemma issued_through_fold:
  assumes "\<And>k v. issued_through api v (f k v)"
  shows "issued_through api w (fold f ks w)"
proof (induction ks arbitrary: w)
  case Nil
  show ?case by (simp add: issued_through_refl)
next
  case (Cons k ks)
  have "issued_through api w (f k w)" by (rule assms)
  moreover have "issued_through api (f k w) (fold f ks (f k w))" by (rule Cons.IH)
  ultimately show ?case
    using issued_through_trans by simp
qed

lemma issued_through_get_device: "issued_through api w (snd (api_get_device api f w))"
  by (simp add: issued_through_def calls_since_def api_get_device_def)

lemma issued_through_delete:
  "issued_through api w (deleteServiceInstallsForCurrentApp api ids w)"
  by (simp add: issued_through_def calls_since_def deleteServiceInstallsForCurrentApp_def)

lemma issued_through_prerun: "issued_through api w (device_PATCH_PRERUN api req w)"
proof (cases "belongs_to__application (request_values req)")
  case (Val appId)
  let ?ids = "fst (getAffectedIds api req w)"
  let ?w1 = "snd (getAffectedIds api req w)"
  have 1: "issued_through api w ?w1"
    using issued_through_get_device [of api w "request_filter req"]
    by (simp add: getAffectedIds_def split_beta)
  have 2: "issued_through api ?w1 (deleteServiceInstallsForCurrentApp api ?ids ?w1)"
    by (rule issued_through_delete)
  have 3: "issued_through api (deleteServiceInstallsForCurrentApp api ?ids ?w1)
      (createAppServiceInstalls api appId ?ids (deleteServiceInstallsForCurrentApp api ?ids ?w1))"
    by (simp add: createAppServiceInstalls_def issued_through_crsi)
  from 1 2 3 have "issued_through api w
      (createAppServiceInstalls api appId ?ids (deleteServiceInstallsForCurrentApp api ?ids ?w1))"
    using issued_through_trans by blast
  with 1 Val show ?thesis
    by (simp add: device_PATCH_PRERUN_def split_beta)
qed (simp_all add: device_PATCH_PRERUN_def issued_through_refl)

lemma issued_through_I:
  "calls w' = calls w @ cs \<Longrightarrow> list_all (\<lambda>c. call_api c = api) cs \<Longrightarrow>
   issued_through api w w'"
  unfolding issued_through_iff by blast

lemma issued_through_release_pin:
  "issued_through api w (device_PATCH_POSTRUN_release api req w)"
proof (cases "should_be_running__release (request_values req) = Null \<and> affectedIds req \<noteq> []")
  case True
  then have e: "should_be_running__release (request_values req) = Null" "affectedIds req \<noteq> []"
    by simp_all
  note x = release_pin_null_exact [OF e, of w api, unfolded Let_def]
  show ?thesis
    by (rule issued_through_I [OF conjunct2 [OF x]])
       (auto simp: list_all_iff post_of_def)
next
  case False
  then show ?thesis
    by (auto simp: device_PATCH_POSTRUN_release_def issued_through_refl issued_through_crsi
        split: js.splits)
qed

text \<open>
  Claim C6, as the code has it. The four PATCH hooks (application release pin, device
  migration, device release pin, device supervisor pin) issue every call through the
  client the hook was given, that is, in the transaction and with the permission context
  of the mutation; the two hooks of a device POST issue every call through a clone of
  that client with the hook's transaction and \<open>permissions.root\<close>.
\<close>

theorem permission_context_of_triggers:
  "issued_through api w (application_PATCH_POSTRUN api req w) \<and>
   issued_through api w (device_PATCH_PRERUN api req w) \<and>
   issued_through api w (device_PATCH_POSTRUN_release api req w) \<and>
   issued_through api w (device_PATCH_POSTRUN_supervisor api req w) \<and>
   issued_through (api\<lparr>passthrough_tx := tx, passthrough_req := root\<rparr>) w
     (device_POST_POSTRUN api tx vals deviceId w) \<and>
   issued_through (api\<lparr>passthrough_tx := tx, passthrough_req := root\<rparr>) w
     (device_POST_POSTRUN_supervisor api tx vals deviceId w)"
proof (intro conjI)
  show "issued_through api w (application_PATCH_POSTRUN api req w)"
    by (simp add: application_PATCH_POSTRUN_def issued_through_refl issued_through_crsi
        split: js.splits)
  show "issued_through api w (device_PATCH_PRERUN api req w)"
    by (rule issued_through_prerun)
  show "issued_through api w (device_PATCH_POSTRUN_release api req w)"
    by (rule issued_through_release_pin)
  show "issued_through api w (device_PATCH_POSTRUN_supervisor api req w)"
    by (simp add: device_PATCH_POSTRUN_supervisor_def issued_through_refl issued_through_crsi
        split: js.splits)
  show "issued_through (api\<lparr>passthrough_tx := tx, passthrough_req := root\<rparr>) w
     (device_POST_POSTRUN api tx vals deviceId w)"
    by (simp add: device_POST_POSTRUN_def createAppServiceInstalls_def issued_through_refl
        issued_through_crsi split: option.splits)
  show "issued_through (api\<lparr>passthrough_tx := tx, passthrough_req := root\<rparr>) w
     (device_POST_POSTRUN_supervisor api tx vals deviceId w)"
    by (simp add: device_POST_POSTRUN_supervisor_def issued_through_refl issued_through_crsi
        split: option.splits js.splits)
qed

text \<open>On the fleet, with a client whose permission context is that of caller 7.\<close>

theorem permission_context_of_triggers_witness:
  "calls (application_PATCH_POSTRUN api0 (patch Undefined (Val 9) Undefined [1] []) world0) \<noteq> [] \<and>
   list_all (\<lambda>c. call_api c = api0)
     (calls (application_PATCH_POSTRUN api0 (patch Undefined (Val 9) Undefined [1] []) world0)) \<and>
   calls (device_POST_POSTRUN api0 1 (created_in 2) (Some 30) world0) \<noteq> [] \<and>
   list_all (\<lambda>c. call_api c = \<lparr>passthrough_tx = 1, passthrough_req = root\<rparr>)
     (calls (device_POST_POSTRUN api0 1 (created_in 2) (Some 30) world0))"
proof -
  have ne: "calls (application_PATCH_POSTRUN api0 (patch Undefined (Val 9) Undefined [1] []) world0) \<noteq> []"
    "calls (device_POST_POSTRUN api0 1 (created_in 2) (Some 30) world0) \<noteq> []"
    by code_simp+
  have c: "calls world0 = []"
    by (simp add: world0_def)
  have r: "api0\<lparr>passthrough_tx := Suc 0, passthrough_req := root\<rparr> =
      \<lparr>passthrough_tx = Suc 0, passthrough_req = root\<rparr>"
    by (simp add: api0_def)
  show ?thesis
    using permission_context_of_triggers [of api0 world0 "patch Undefined (Val 9) Undefined [1] []"
        1 "created_in 2" "Some 30"] ne
    by (simp add: issued_through_def calls_since_def c r)
qed

text \<open>
  The claim as stated fails on both counts: the reconciliation of an application pin
  issues its four calls with the caller's context, not with root, and the creation of
  device 30 in application 2 issues its three calls with root, not with the context of
  the mutation.
\<close>

theorem permission_context_counterexample:
  "passthrough_req api0 = caller 7 \<and>
   map (\<lambda>c. passthrough_req (call_api c))
     (calls (application_PATCH_POSTRUN api0 (patch Undefined (Val 9) Undefined [1] []) world0)) =
     [caller 7, caller 7, caller 7, caller 7] \<and>
   map (\<lambda>c. passthrough_req (call_api c))
     (calls (device_POST_POSTRUN api0 1 (created_in 2) (Some 30) world0)) =
     [root, root, root]"
  by code_simp

section \<open>The notifier\<close>

text \<open>
  Claim C7. For a non-null application release pin \<open>r\<close> and at least one affected
  application the hook registers one listener for the end of the transaction. The
  listener calls \<open>postDevices\<close> once, with root permissions and without waiting, for the
  devices that belong to an affected application, run a release other than \<open>r\<close> and
  have no pin of their own. It never lets an error escape; an error thrown by
  \<open>postDevices\<close> goes to \<open>captureException\<close>, and there is no second call.
\<close>

theorem notifier_targets_and_failures:
  "(should_be_running__release (request_values req) = Val r \<and> affectedIds req \<noteq> [] \<longrightarrow>
      application_PATCH_POSTRUN_notify req = [(affectedIds req, r)]) \<and>
   pd_url (update_request affected r) = ''/v1/update'' \<and>
   pd_req (update_request affected r) = root \<and>
   pd_wait (update_request affected r) = False \<and>
   device_matches (pd_filter (update_request affected r)) d =
     (device_belongs_to__application d \<in> set affected \<and>
      device_is_running__release d \<noteq> Some r \<and>
      device_should_be_running__release d = None) \<and>
   fst (on_end affected r postDevices out) = None \<and>
   posted (snd (on_end affected r postDevices out)) = posted out @ [update_request affected r] \<and>
   captured (snd (on_end affected r postDevices out)) =
     captured out @
       (case postDevices (update_request affected r) of
          None \<Rightarrow> []
        | Some err \<Rightarrow> [(err, ''Error notifying device updates'')])"
  by (simp add: application_PATCH_POSTRUN_notify_def update_request_def device_matches_def
      on_end_def captureException_def Let_def split: option.splits)

text \<open>On the fleet: application 1 pinned to release 9 targets device 10 only; a refused
  connection is captured.\<close>

theorem notifier_targets_and_failures_witness:
  "should_be_running__release (request_values (patch Undefined (Val 9) Undefined [1] [])) = Val 9 \<and>
   affectedIds (patch Undefined (Val 9) Undefined [1] []) \<noteq> [] \<and>
   application_PATCH_POSTRUN_notify (patch Undefined (Val 9) Undefined [1] []) = [([1], 9)] \<and>
   map device_id (filter (device_matches (pd_filter (update_request [1] 9))) (tbl_device fleet)) = [10] \<and>
   fst (on_end [1] 9 (\<lambda>args. Some ''ECONNREFUSED'') quiet) = None \<and>
   posted (snd (on_end [1] 9 (\<lambda>args. Some ''ECONNREFUSED'') quiet)) = [update_request [1] 9] \<and>
   captured (snd (on_end [1] 9 (\<lambda>args. Some ''ECONNREFUSED'') quiet)) =
     [(''ECONNREFUSED'', ''Error notifying device updates'')]"
proof -
  let ?req = "patch Undefined (Val 9) Undefined [1] []"
  let ?pd = "\<lambda>args::postDevices_args. Some ''ECONNREFUSED''"
  have p: "should_be_running__release (request_values ?req) = Val 9" "affectedIds ?req \<noteq> []"
    "affectedIds ?req = [1]"
    by (simp_all add: patch_def)
  have t: "map device_id (filter (\<lambda>d. device_belongs_to__application d \<in> set [1] \<and>
      device_is_running__release d \<noteq> Some 9 \<and>
      device_should_be_running__release d = None) (tbl_device fleet)) = [10]"
    by (simp add: fleet_def)
  have n: "application_PATCH_POSTRUN_notify ?req = [([1], 9)]"
    using notifier_targets_and_failures [of ?req 9] p by simp
  have m: "\<And>d. device_matches (pd_filter (update_request [1] 9)) d =
     (device_belongs_to__application d \<in> set [1] \<and>
      device_is_running__release d \<noteq> Some 9 \<and>
      device_should_be_running__release d = None)"
    using notifier_targets_and_failures [of ?req 9 "[1]"] by blast
  have o: "fst (on_end [1] 9 ?pd quiet) = None"
    "posted (snd (on_end [1] 9 ?pd quiet)) = [update_request [1] 9]"
    "captured (snd (on_end [1] 9 ?pd quiet)) =
       [(''ECONNREFUSED'', ''Error notifying device updates'')]"
    using notifier_targets_and_failures [of ?req 9 "[1]" _ ?pd quiet]
    by (simp_all add: quiet_def)
  with p n t o show ?thesis
    unfolding m by blast
qed

section \<open>The purge of a batch\<close>

text \<open>
  Claim C10. After the purge for a batch of device ids, a row is left exactly when it
  was there before and it is not the case that its device is in the batch and its
  service belongs to an application that owns some device of the batch: the owner need
  not be the application of the row's own device.
\<close>

theorem purge_quantifies_over_the_batch:
  "(si \<in> set (tbl_service_install (db (deleteServiceInstallsForCurrentApp api deviceIds w)))) =
     (si \<in> set (tbl_service_install (db w)) \<and>
      \<not> (si_device si \<in> set deviceIds \<and>
         (\<exists>svc \<in> set (tbl_service (db w)). service_id svc = si_installs__service si \<and>
            (\<exists>a \<in> set (tbl_application (db w)). application_id a = service_application svc \<and>
               (\<exists>d \<in> set (tbl_device (db w)).
                  device_belongs_to__application d = application_id a \<and>
                  device_id d \<in> set deviceIds)))))"
  by (simp add: deleteServiceInstallsForCurrentApp_def current_app_matches_def list_ex_iff)

text \<open>On the fleet: device 10 belongs to application 1 and has an install of service
  200 of application 2. Purging device 10 alone keeps that row; purging the batch of
  devices 10 and 20 (device 20 belongs to application 2) deletes it.\<close>

theorem purge_quantifies_over_the_batch_witness:
  "map device_belongs_to__application (filter (\<lambda>d. device_id d = 10) (tbl_device (db world0))) = [1] \<and>
   map service_application (filter (\<lambda>s. service_id s = 200) (tbl_service (db world0))) = [2] \<and>
   mk_install 10 200 \<in> set (tbl_service_install (db world0)) \<and>
   mk_install 10 200 \<in> set (tbl_service_install (db (deleteServiceInstallsForCurrentApp api0 [10] world0))) \<and>
   mk_install 10 200 \<notin> set (tbl_service_install (db (deleteServiceInstallsForCurrentApp api0 [10, 20] world0)))"
proof -
  have 1: "map device_belongs_to__application (filter (\<lambda>d. device_id d = 10) (tbl_device (db world0))) = [1]"
    "map service_application (filter (\<lambda>s. service_id s = 200) (tbl_service (db world0))) = [2]"
    "mk_install 10 200 \<in> set (tbl_service_install (db world0))"
    by (simp_all add: world0_def fleet_def mk_install_def)
  have 2: "mk_install 10 200 \<in> set (tbl_service_install (db (deleteServiceInstallsForCurrentApp api0 [10] world0)))"
    unfolding purge_quantifies_over_the_batch
    by (simp add: world0_def fleet_def mk_install_def)
  have 3: "mk_install 10 200 \<notin> set (tbl_service_install (db (deleteServiceInstallsForCurrentApp api0 [10, 20] world0)))"
    unfolding purge_quantifies_over_the_batch
    by (simp add: world0_def fleet_def mk_install_def)
  from 1 2 3 show ?thesis by blast
qed

end
